theory Spec2Isabelle
  imports Main
begin

section \<open>Strings as the program reads them\<close>

text \<open>
  The scraper (\<^verbatim>\<open>src/scrapper.py\<close>, class \<^verbatim>\<open>ContactScraper\<close>) works on Python
  \<^verbatim>\<open>str\<close> values. They are modelled as \<^typ>\<open>string\<close>, one \<^typ>\<open>char\<close> per code
  point, so the model covers text whose code points lie below 256. On that range
  \<^verbatim>\<open>\d\<close> is the ten ASCII digits and \<^verbatim>\<open>\s\<close> (like \<^verbatim>\<open>str.strip\<close>) is the set
  \<^verbatim>\<open>str.isspace\<close> accepts. Case mapping is the ASCII one: every literal the program
  compares a lowered string with is ASCII, and no other character below 256 lowers to
  an ASCII letter.
\<close>

definition is_digit :: "char \<Rightarrow> bool" where
  "is_digit c = (c \<in> set ''0123456789'')"

definition is_space :: "char \<Rightarrow> bool" where
  "is_space c = (c \<in> set [CHR 0x09, CHR 0x0A, CHR 0x0B, CHR 0x0C, CHR 0x0D,
     CHR 0x1C, CHR 0x1D, CHR 0x1E, CHR 0x1F, CHR 0x20, CHR 0x85, CHR 0xA0])"

definition ascii_upper :: string where
  "ascii_upper = ''ABCDEFGHIJKLMNOPQRSTUVWXYZ''"

definition ascii_lower :: string where
  "ascii_lower = ''abcdefghijklmnopqrstuvwxyz''"

definition lower_char :: "char \<Rightarrow> char" where
  "lower_char c = (case map_of (zip ascii_upper ascii_lower) c of Some l \<Rightarrow> l | None \<Rightarrow> c)"

definition upper_char :: "char \<Rightarrow> char" where
  "upper_char c = (case map_of (zip ascii_lower ascii_upper) c of Some u \<Rightarrow> u | None \<Rightarrow> c)"

text \<open>\<^verbatim>\<open>s.lower()\<close>.\<close>

definition lower :: "string \<Rightarrow> string" where
  "lower s = map lower_char s"

text \<open>\<^verbatim>\<open>s.startswith(p)\<close>, \<^verbatim>\<open>s.endswith(p)\<close> and \<^verbatim>\<open>p in s\<close>.\<close>

definition startswith :: "string \<Rightarrow> string \<Rightarrow> bool" where
  "startswith s p = (take (length p) s = p)"

definition endswith :: "string \<Rightarrow> string \<Rightarrow> bool" where
  "endswith s p = (length p \<le> length s \<and> drop (length s - length p) s = p)"

fun contains :: "string \<Rightarrow> string \<Rightarrow> bool" where
  "contains [] p = (p = [])"
| "contains (c # cs) p = (startswith (c # cs) p \<or> contains cs p)"

text \<open>\<^verbatim>\<open>s.startswith((p1, p2, ...))\<close> and \<^verbatim>\<open>s.endswith((p1, p2, ...))\<close> with a tuple.\<close>

definition startswith_any :: "string \<Rightarrow> string list \<Rightarrow> bool" where
  "startswith_any s ps = list_ex (startswith s) ps"

definition endswith_any :: "string \<Rightarrow> string list \<Rightarrow> bool" where
  "endswith_any s ps = list_ex (endswith s) ps"

text \<open>\<^verbatim>\<open>s.strip()\<close> and \<^verbatim>\<open>s.rstrip(chars)\<close>.\<close>

definition strip :: "string \<Rightarrow> string" where
  "strip s = rev (dropWhile is_space (rev (dropWhile is_space s)))"

definition rstrip_chars :: "string \<Rightarrow> string \<Rightarrow> string" where
  "rstrip_chars s chars = rev (dropWhile (\<lambda>c. c \<in> set chars) (rev s))"

text \<open>\<^verbatim>\<open>s.split(d)\<close> for a one-character separator: never empty.\<close>

fun split_on :: "char \<Rightarrow> string \<Rightarrow> string list" where
  "split_on d [] = [[]]"
| "split_on d (c # cs) =
     (if c = d then [] # split_on d cs
      else (case split_on d cs of w # ws \<Rightarrow> (c # w) # ws | [] \<Rightarrow> [[c]]))"

text \<open>\<^verbatim>\<open>sep.join(parts)\<close>.\<close>

fun join :: "string \<Rightarrow> string list \<Rightarrow> string" where
  "join sep [] = []"
| "join sep [x] = x"
| "join sep (x # y # ys) = x @ sep @ join sep (y # ys)"

text \<open>The slice \<^verbatim>\<open>xs[a:b]\<close> for non-negative bounds.\<close>

definition slice :: "'a list \<Rightarrow> nat \<Rightarrow> nat \<Rightarrow> 'a list" where
  "slice xs a b = take (b - a) (drop a xs)"

section \<open>Regular expressions\<close>

text \<open>
  The patterns of the program use character classes with counted repetition,
  concatenation and alternation only. \<open>Rep c lo hi\<close> is the class \<open>c\<close> repeated
  \<open>lo\<close> to \<open>hi\<close> times (\<open>None\<close>: unbounded), greedily. \<open>ms r s\<close> lists what is left
  of \<open>s\<close> after each way \<open>r\<close> can match a prefix of it, in the order in which Python's
  backtracking matcher tries them: longest repetition first, left alternative first.
  Its head is the match Python reports.
\<close>

datatype rx = Rep "char \<Rightarrow> bool" nat "nat option" | Seq rx rx | Alt rx rx

fun ms :: "rx \<Rightarrow> string \<Rightarrow> string list" where
  "ms (Rep c lo hi) s =
     (let k = length (takeWhile c s);
          k' = (case hi of None \<Rightarrow> k | Some h \<Rightarrow> min h k)
      in map (\<lambda>j. drop j s) (rev [lo..<Suc k']))"
| "ms (Seq a b) s = concat (map (ms b) (ms a s))"
| "ms (Alt a b) s = ms a s @ ms b s"

abbreviation rx_one :: "(char \<Rightarrow> bool) \<Rightarrow> rx" where
  "rx_one c \<equiv> Rep c 1 (Some 1)"

abbreviation rx_opt :: "(char \<Rightarrow> bool) \<Rightarrow> rx" where
  "rx_opt c \<equiv> Rep c 0 (Some 1)"

abbreviation rx_star :: "(char \<Rightarrow> bool) \<Rightarrow> rx" where
  "rx_star c \<equiv> Rep c 0 None"

abbreviation rx_plus :: "(char \<Rightarrow> bool) \<Rightarrow> rx" where
  "rx_plus c \<equiv> Rep c 1 None"

definition chr :: "char \<Rightarrow> char \<Rightarrow> bool" where
  "chr a c = (c = a)"

definition cls :: "string \<Rightarrow> char \<Rightarrow> bool" where
  "cls chars c = (c \<in> set chars)"

fun seqs :: "rx list \<Rightarrow> rx" where
  "seqs [] = Rep (\<lambda>c. False) 0 (Some 0)"
| "seqs [r] = r"
| "seqs (r # rs) = Seq r (seqs rs)"

text \<open>A literal string.\<close>

definition lit :: "string \<Rightarrow> rx" where
  "lit s = seqs (map (\<lambda>a. rx_one (chr a)) s)"

text \<open>
  The flag \<^verbatim>\<open>re.IGNORECASE\<close>, for the (positive) classes the program uses it with: a
  character is in the class when it, its lower case or its upper case is. Beyond the
  strings of this model the flag also lets a class with \<^verbatim>\<open>s\<close>, \<^verbatim>\<open>k\<close> or \<^verbatim>\<open>i\<close> accept
  U+017F, U+212A, U+0130 and U+0131; what is proved below of the text scans is their
  place in the output, not which strings they return.
\<close>

fun ignorecase :: "rx \<Rightarrow> rx" where
  "ignorecase (Rep c lo hi) = Rep (\<lambda>x. c x \<or> c (lower_char x) \<or> c (upper_char x)) lo hi"
| "ignorecase (Seq a b) = Seq (ignorecase a) (ignorecase b)"
| "ignorecase (Alt a b) = Alt (ignorecase a) (ignorecase b)"

text \<open>
  \<open>match_len r s\<close>: the length of the match of \<open>r\<close> at the start of \<open>s\<close>
  (\<^verbatim>\<open>re.match\<close>), if there is one.
\<close>

definition match_len :: "rx \<Rightarrow> string \<Rightarrow> nat option" where
  "match_len r s = (case ms r s of [] \<Rightarrow> None | t # _ \<Rightarrow> Some (length s - length t))"

text \<open>
  A pattern \<open>p(g)\<close> with one capturing group at its end: the length of the whole match
  and the text of the group.
\<close>

definition match_group :: "rx \<Rightarrow> rx \<Rightarrow> string \<Rightarrow> (nat \<times> string) option" where
  "match_group p g s =
     (case concat (map (\<lambda>t. map (\<lambda>u. (t, u)) (ms g t)) (ms p s)) of
        [] \<Rightarrow> None
      | (t, u) # _ \<Rightarrow> Some (length s - length u, take (length t - length u) t))"

text \<open>A pattern with no group (or one group around all of it): the match itself.\<close>

definition match_whole :: "rx \<Rightarrow> string \<Rightarrow> (nat \<times> string) option" where
  "match_whole r s = (case match_len r s of None \<Rightarrow> None | Some n \<Rightarrow> Some (n, take n s))"

text \<open>
  The scan behind \<^verbatim>\<open>re.findall\<close>, \<^verbatim>\<open>re.finditer\<close>, \<^verbatim>\<open>re.search\<close> and \<^verbatim>\<open>re.sub\<close>:
  try the pattern at each position from the left and, after a match, go on where it
  ended. \<open>m\<close> is the matcher at one position, \<open>skip\<close> counts the characters of the
  last match still to pass, \<open>pos\<close> is the position in the text. Every pattern of the
  program needs at least one character, so no match is empty. The result lists, for
  each match, where it starts, how long it is and what \<open>m\<close> returned for it.
\<close>

fun scan :: "(string \<Rightarrow> (nat \<times> 'a) option) \<Rightarrow> nat \<Rightarrow> nat \<Rightarrow> string \<Rightarrow> (nat \<times> nat \<times> 'a) list" where
  "scan m skip pos [] = []"
| "scan m skip pos (c # cs) =
     (if skip > 0 then scan m (skip - 1) (Suc pos) cs
      else (case m (c # cs) of
              None \<Rightarrow> scan m 0 (Suc pos) cs
            | Some (n, x) \<Rightarrow> (pos, n, x) # scan m (n - 1) (Suc pos) cs))"

definition findall :: "(string \<Rightarrow> (nat \<times> 'a) option) \<Rightarrow> string \<Rightarrow> 'a list" where
  "findall m s = map (\<lambda>(pos, n, x). x) (scan m 0 0 s)"

text \<open>\<^verbatim>\<open>re.finditer\<close>: each match as \<open>(start, end)\<close>.\<close>

definition finditer :: "rx \<Rightarrow> string \<Rightarrow> (nat \<times> nat) list" where
  "finditer r s = map (\<lambda>(pos, n, x). (pos, pos + n)) (scan (match_whole r) 0 0 s)"

text \<open>\<^verbatim>\<open>re.search\<close>: the first match of the scan.\<close>

definition search :: "(string \<Rightarrow> (nat \<times> 'a) option) \<Rightarrow> string \<Rightarrow> 'a option" where
  "search m s = (case findall m s of [] \<Rightarrow> None | x # _ \<Rightarrow> Some x)"

text \<open>\<^verbatim>\<open>re.sub(pattern, repl, s)\<close> with a constant replacement.\<close>

fun sub_scan :: "(string \<Rightarrow> nat option) \<Rightarrow> string \<Rightarrow> nat \<Rightarrow> string \<Rightarrow> string" where
  "sub_scan m repl skip [] = []"
| "sub_scan m repl skip (c # cs) =
     (if skip > 0 then sub_scan m repl (skip - 1) cs
      else (case m (c # cs) of
              None \<Rightarrow> c # sub_scan m repl 0 cs
            | Some n \<Rightarrow> repl @ sub_scan m repl (n - 1) cs))"

definition re_sub :: "rx \<Rightarrow> string \<Rightarrow> string \<Rightarrow> string" where
  "re_sub r repl s = sub_scan (match_len r) repl 0 s"

text \<open>\<^verbatim>\<open>s.replace(old, new)\<close> for a non-empty \<open>old\<close>.\<close>

definition replace :: "string \<Rightarrow> string \<Rightarrow> string \<Rightarrow> string" where
  "replace s old new =
     sub_scan (\<lambda>t. if startswith t old then Some (length old) else None) new 0 s"

section \<open>The phone plausibility filter\<close>

text \<open>
  \<^verbatim>\<open>clean_phone_numbers\<close>: the loop over the raw numbers, with the set \<^verbatim>\<open>cleaned\<close>
  as accumulator. Each \<^verbatim>\<open>continue\<close> is a branch that keeps the set as it is.
\<close>

definition normalize_ws :: "string \<Rightarrow> string" where
  "normalize_ws num = re_sub (rx_plus is_space) '' '' (strip num)"

definition digits_only :: "string \<Rightarrow> string" where
  "digits_only clean_num = re_sub (rx_one (\<lambda>c. \<not> is_digit c)) [] clean_num"

fun clean_phone_loop :: "string list \<Rightarrow> string set \<Rightarrow> string set" where
  "clean_phone_loop [] cleaned = cleaned"
| "clean_phone_loop (num # rest) cleaned =
     (let clean_num = normalize_ws num;
          digits = digits_only clean_num
      in if length digits < 7 \<or> length digits > 15 then clean_phone_loop rest cleaned
         else if startswith_any digits [''0000'', ''1111'', ''2222'', ''3333'']
           then clean_phone_loop rest cleaned
         else if length digits = 4 \<and> startswith_any digits [''19'', ''20'']
           then clean_phone_loop rest cleaned
         else if length digits \<ge> 10 \<and> startswith_any digits [''16'', ''17'', ''20'']
           then clean_phone_loop rest cleaned
         else clean_phone_loop rest (insert clean_num cleaned))"

definition clean_phone_numbers :: "string list \<Rightarrow> string set" where
  "clean_phone_numbers raw_numbers = clean_phone_loop raw_numbers {}"

section \<open>The patterns\<close>

text \<open>The four patterns of \<^verbatim>\<open>__init__\<close>, class by class as they are written.\<close>

definition alnum :: string where
  "alnum = ascii_lower @ ascii_upper @ ''0123456789''"

text \<open>\<^verbatim>\<open>[a-zA-Z0-9._%+-]+@[a-zA-Z0-9.-]+\.[a-zA-Z]{2,}\<close>\<close>

definition EMAIL_REGEX :: rx where
  "EMAIL_REGEX = seqs [rx_plus (cls (alnum @ ''._%+-'')), rx_one (chr CHR ''@''),
     rx_plus (cls (alnum @ ''.-'')), rx_one (chr CHR ''.''),
     Rep (cls (ascii_lower @ ascii_upper)) 2 None]"

text \<open>\<^verbatim>\<open>(\+?[1-9]\d{0,3}[\s.-]?\d{2,4}[\s.-]?\d{2,4}[\s.-]?\d{2,4})\<close>\<close>

definition phone_sep :: "char \<Rightarrow> bool" where
  "phone_sep c = (is_space c \<or> c \<in> set ''.-'')"

definition PHONE_REGEX :: rx where
  "PHONE_REGEX = seqs [rx_opt (chr CHR ''+''), rx_one (cls ''123456789''), Rep is_digit 0 (Some 3),
     rx_opt phone_sep, Rep is_digit 2 (Some 4), rx_opt phone_sep, Rep is_digit 2 (Some 4),
     rx_opt phone_sep, Rep is_digit 2 (Some 4)]"

text \<open>
  \<^verbatim>\<open>(?:whatsapp|whats app|wa|w\.a\.?)\s*:?\s*(\+?[1-9]\d{7,15})\<close>, as the part before
  the capturing group and the group.
\<close>

definition WHATSAPP_PREFIX :: rx where
  "WHATSAPP_PREFIX = seqs [
     Alt (lit ''whatsapp'') (Alt (lit ''whats app'') (Alt (lit ''wa'')
       (Seq (lit ''w.a'') (rx_opt (chr CHR ''.''))))),
     rx_star is_space, rx_opt (chr CHR '':''), rx_star is_space]"

definition WHATSAPP_GROUP :: rx where
  "WHATSAPP_GROUP = seqs [rx_opt (chr CHR ''+''), rx_one (cls ''123456789''), Rep is_digit 7 (Some 15)]"

text \<open>\<^verbatim>\<open>https?://[^\s<>\"\'{}|\\^`\[\]]*\<close>\<close>

definition url_char :: "char \<Rightarrow> bool" where
  "url_char c = (\<not> (is_space c \<or> c \<in> set [CHR ''<'', CHR ''>'', CHR 0x22, CHR 0x27,
     CHR ''{'', CHR ''}'', CHR ''|'', CHR 0x5C, CHR ''^'', CHR 0x60, CHR ''['', CHR '']'']))"

definition URL_REGEX :: rx where
  "URL_REGEX = seqs [lit ''http'', rx_opt (chr CHR ''s''), lit ''://'', rx_star url_char]"

definition ADDRESS_KEYWORDS :: "string list" where
  "ADDRESS_KEYWORDS = [''address'', ''location'', ''addr'', ''office'', ''headquarters'',
     ''visit us'', ''find us'', ''our location'', ''contact address'', ''postal address'',
     ''street'', ''building'', ''floor'', ''suite'', ''room'', ''block'', ''plot'',
     ''city'', ''state'', ''country'', ''pin'', ''zip'', ''postal code'']"

section \<open>The parsed document\<close>

text \<open>
  The program reads a BeautifulSoup document through a few observations only, and the
  model is the record of those: the text of the page (\<^verbatim>\<open>soup.get_text()\<close>) and its
  elements in document order, the order in which \<^verbatim>\<open>find_all\<close> yields them. Of an
  element it reads the tag name, the attributes, \<^verbatim>\<open>.string\<close> (absent unless the
  element has a single string), \<^verbatim>\<open>get_text()\<close> and
  \<^verbatim>\<open>get_text(separator=' ', strip=True)\<close>. The \<^verbatim>\<open>class\<close> attribute is held as one
  string, its tokens joined by a space: a literal pattern found in a token is found in
  the joined value, which BeautifulSoup tries as well.
\<close>

record element =
  el_name :: string
  el_attrs :: "(string \<times> string) list"
  el_string :: "string option"
  el_text :: string
  el_text_sep :: string

record soup =
  soup_text :: string
  soup_elements :: "element list"

definition attr :: "element \<Rightarrow> string \<Rightarrow> string option" where
  "attr e k = map_of (el_attrs e) k"

text \<open>The values \<^verbatim>\<open>link['href']\<close> for \<^verbatim>\<open>link in soup.find_all('a', href=True)\<close>.\<close>

definition a_hrefs :: "soup \<Rightarrow> string list" where
  "a_hrefs sp = List.map_filter (\<lambda>e. if el_name e = ''a'' then attr e ''href'' else None)
     (soup_elements sp)"

text \<open>The values \<^verbatim>\<open>element.get(k)\<close> for \<^verbatim>\<open>element in soup.find_all(attrs={k: True})\<close>.\<close>

definition attr_values :: "soup \<Rightarrow> string \<Rightarrow> string list" where
  "attr_values sp k = List.map_filter (\<lambda>e. attr e k) (soup_elements sp)"

text \<open>\<^verbatim>\<open>soup.find_all(attrs={k: re.compile(pat, re.I)})\<close> for a literal \<open>pat\<close>.\<close>

definition find_all_attr_re :: "soup \<Rightarrow> string \<Rightarrow> string \<Rightarrow> element list" where
  "find_all_attr_re sp k pat = filter
     (\<lambda>e. case attr e k of None \<Rightarrow> False
          | Some v \<Rightarrow> search (match_whole (ignorecase (lit pat))) v \<noteq> None)
     (soup_elements sp)"

section \<open>The detectors\<close>

subsection \<open>Emails\<close>

text \<open>\<^verbatim>\<open>href.replace('mailto:', '').split('?')[0].split('&')[0]\<close>\<close>

definition mailto_target :: "string \<Rightarrow> string" where
  "mailto_target href = hd (split_on CHR ''&'' (hd (split_on CHR ''?'' (replace href ''mailto:'' []))))"

fun mailto_loop :: "string list \<Rightarrow> string set \<Rightarrow> string set" where
  "mailto_loop [] emails = emails"
| "mailto_loop (href # links) emails =
     (if startswith href ''mailto:'' then
        (let email = mailto_target href
         in if match_len EMAIL_REGEX email \<noteq> None then mailto_loop links (insert email emails)
            else mailto_loop links emails)
      else mailto_loop links emails)"

fun data_email_loop :: "string list \<Rightarrow> string set \<Rightarrow> string set" where
  "data_email_loop [] emails = emails"
| "data_email_loop (email # elements) emails =
     (if match_len EMAIL_REGEX email \<noteq> None then data_email_loop elements (insert email emails)
      else data_email_loop elements emails)"

definition extract_emails :: "soup \<Rightarrow> string set" where
  "extract_emails sp =
     (let emails = {};
          found_emails = findall (match_whole (ignorecase EMAIL_REGEX)) (soup_text sp);
          emails = emails \<union> set found_emails;
          emails = mailto_loop (a_hrefs sp) emails;
          emails = data_email_loop (attr_values sp ''data-email'') emails
      in emails)"

subsection \<open>Phones\<close>

fun tel_loop :: "string list \<Rightarrow> string list \<Rightarrow> string list" where
  "tel_loop [] raw_phones = raw_phones"
| "tel_loop (href # links) raw_phones =
     (if startswith href ''tel:'' then tel_loop links (raw_phones @ [strip (replace href ''tel:'' [])])
      else tel_loop links raw_phones)"

definition raw_phones_of :: "soup \<Rightarrow> string list" where
  "raw_phones_of sp =
     (let raw_phones = [];
          raw_phones = raw_phones @ findall (match_whole PHONE_REGEX) (soup_text sp);
          raw_phones = tel_loop (a_hrefs sp) raw_phones;
          raw_phones = raw_phones @ attr_values sp ''data-phone''
      in raw_phones)"

definition extract_phones :: "soup \<Rightarrow> string set" where
  "extract_phones sp = clean_phone_numbers (raw_phones_of sp)"

subsection \<open>WhatsApp numbers\<close>

text \<open>
  The first strategy of \<^verbatim>\<open>extract_whatsapp\<close>: \<^verbatim>\<open>re.findall\<close> with the keyword pattern
  returns the capturing group of each match, which is kept when it has at least seven
  digits.
\<close>

fun wa_text_loop :: "string list \<Rightarrow> string set \<Rightarrow> string set" where
  "wa_text_loop [] whatsapp_numbers = whatsapp_numbers"
| "wa_text_loop (match # matches) whatsapp_numbers =
     (let clean_match = re_sub (rx_one (\<lambda>c. \<not> is_digit c)) [] match
      in if length clean_match \<ge> 7 then wa_text_loop matches (insert match whatsapp_numbers)
         else wa_text_loop matches whatsapp_numbers)"

definition wa_text_matches :: "string \<Rightarrow> string list" where
  "wa_text_matches text =
     findall (match_group (ignorecase WHATSAPP_PREFIX) (ignorecase WHATSAPP_GROUP)) text"

text \<open>The links: \<^verbatim>\<open>re.search(r'(\+?\d{7,15})', href)\<close>.\<close>

definition WA_LINK_REGEX :: rx where
  "WA_LINK_REGEX = seqs [rx_opt (chr CHR ''+''), Rep is_digit 7 (Some 15)]"

fun wa_link_loop :: "string list \<Rightarrow> string set \<Rightarrow> string set" where
  "wa_link_loop [] whatsapp_numbers = whatsapp_numbers"
| "wa_link_loop (href # links) whatsapp_numbers =
     (if contains href ''wa.me'' \<or> contains href ''whatsapp.com'' \<or> contains href ''api.whatsapp.com''
      then (case search (match_whole WA_LINK_REGEX) href of
              Some g \<Rightarrow> wa_link_loop links (insert g whatsapp_numbers)
            | None \<Rightarrow> wa_link_loop links whatsapp_numbers)
      else wa_link_loop links whatsapp_numbers)"

text \<open>
  The elements: \<^verbatim>\<open>'|'.join(whatsapp_keywords)\<close> is the pattern
  \<^verbatim>\<open>whatsapp|whats app|wa|w.a.\<close>, whose dots stand for any character but a newline;
  the numbers are found with \<^verbatim>\<open>(\+?\d[\d\s()-]{7,15})\<close>.
\<close>

definition any_char :: "char \<Rightarrow> bool" where
  "any_char c = (c \<noteq> CHR 0x0A)"

definition WA_KEYWORD_REGEX :: rx where
  "WA_KEYWORD_REGEX = Alt (lit ''whatsapp'') (Alt (lit ''whats app'') (Alt (lit ''wa'')
     (seqs [rx_one (chr CHR ''w''), rx_one any_char, rx_one (chr CHR ''a''), rx_one any_char])))"

definition WA_ELEMENT_REGEX :: rx where
  "WA_ELEMENT_REGEX = seqs [rx_opt (chr CHR ''+''), rx_one is_digit,
     Rep (\<lambda>c. is_digit c \<or> is_space c \<or> c \<in> set ''()-'') 7 (Some 15)]"

fun wa_number_loop :: "string list \<Rightarrow> string set \<Rightarrow> string set" where
  "wa_number_loop [] whatsapp_numbers = whatsapp_numbers"
| "wa_number_loop (num # numbers) whatsapp_numbers =
     (let clean_num = re_sub (rx_one (\<lambda>c. \<not> is_digit c)) [] num
      in if length clean_num \<ge> 7 then wa_number_loop numbers (insert num whatsapp_numbers)
         else wa_number_loop numbers whatsapp_numbers)"

definition wa_elements :: "soup \<Rightarrow> element list" where
  "wa_elements sp = filter
     (\<lambda>e. el_name e \<in> set [''button'', ''div'', ''span''] \<and>
          (case el_string e of None \<Rightarrow> False
           | Some t \<Rightarrow> search (match_whole (ignorecase WA_KEYWORD_REGEX)) t \<noteq> None))
     (soup_elements sp)"

fun wa_element_loop :: "element list \<Rightarrow> string set \<Rightarrow> string set" where
  "wa_element_loop [] whatsapp_numbers = whatsapp_numbers"
| "wa_element_loop (e # elements) whatsapp_numbers =
     wa_element_loop elements
       (wa_number_loop (findall (match_whole WA_ELEMENT_REGEX) (el_text e)) whatsapp_numbers)"

definition extract_whatsapp :: "soup \<Rightarrow> string set" where
  "extract_whatsapp sp =
     (let whatsapp_numbers = {};
          whatsapp_numbers = wa_text_loop (wa_text_matches (soup_text sp)) whatsapp_numbers;
          whatsapp_numbers = wa_link_loop (a_hrefs sp) whatsapp_numbers;
          whatsapp_numbers = wa_element_loop (wa_elements sp) whatsapp_numbers
      in whatsapp_numbers)"

subsection \<open>URLs\<close>

text \<open>
  \<^verbatim>\<open>urlparse\<close> and \<^verbatim>\<open>urljoin\<close> belong to the standard library, not to the program;
  \<^verbatim>\<open>extract_urls\<close> takes them as parameters: \<open>urlparse\<close> gives the scheme and the
  network location of a URL, \<open>urljoin\<close> resolves a reference against a base.
\<close>

record urllib =
  urlparse :: "string \<Rightarrow> string \<times> string"
  urljoin :: "string \<Rightarrow> string \<Rightarrow> string"

definition media_extensions :: "string list" where
  "media_extensions = [''.jpg'', ''.png'', ''.css'', ''.js'', ''.pdf'', ''.jpeg'', ''.svg'',
     ''.gif'', ''.ico'']"

definition punctuation_chars :: string where
  "punctuation_chars = [CHR ''.'', CHR '','', CHR '';'', CHR '':'', CHR '')'', CHR '']'',
     CHR ''}'', CHR ''>'', CHR 0x22, CHR 0x27]"

fun text_url_loop :: "string list \<Rightarrow> string set \<Rightarrow> string set" where
  "text_url_loop [] urls = urls"
| "text_url_loop (url # text_urls) urls =
     (let clean_url = rstrip_chars url punctuation_chars
      in if \<not> endswith_any (lower clean_url) media_extensions
         then text_url_loop text_urls (insert clean_url urls)
         else text_url_loop text_urls urls)"

fun href_url_loop :: "urllib \<Rightarrow> string \<Rightarrow> string list \<Rightarrow> string set \<Rightarrow> string set" where
  "href_url_loop lib base_domain [] urls = urls"
| "href_url_loop lib base_domain (href # links) urls =
     (if startswith href ''http'' then
        (if \<not> endswith_any (lower href) media_extensions
         then href_url_loop lib base_domain links (insert href urls)
         else href_url_loop lib base_domain links urls)
      else if startswith href ''/'' then
        (let full_url = urljoin lib base_domain href
         in href_url_loop lib base_domain links (insert full_url urls))
      else href_url_loop lib base_domain links urls)"

definition base_domain_of :: "urllib \<Rightarrow> string \<Rightarrow> string" where
  "base_domain_of lib base_url = (case urlparse lib base_url of (scheme, netloc) \<Rightarrow> scheme @ ''://'' @ netloc)"

definition extract_urls :: "urllib \<Rightarrow> soup \<Rightarrow> string \<Rightarrow> string set" where
  "extract_urls lib sp base_url =
     (let urls = {};
          base_domain = base_domain_of lib base_url;
          urls = insert base_domain urls;
          text_urls = findall (match_whole URL_REGEX) (soup_text sp);
          urls = text_url_loop text_urls urls;
          urls = href_url_loop lib base_domain (a_hrefs sp) urls
      in urls)"

subsection \<open>Addresses\<close>

text \<open>Strategies 1 and 3 keep an element's text when it is longer than 10 characters.\<close>

fun addr_tag_loop :: "element list \<Rightarrow> string set \<Rightarrow> string set" where
  "addr_tag_loop [] adds = adds"
| "addr_tag_loop (e # es) adds =
     (let addr_text = el_text_sep e
      in if length addr_text > 10 then addr_tag_loop es (insert addr_text adds)
         else addr_tag_loop es adds)"

text \<open>Strategy 2: for each class name, the elements whose class matches it.\<close>

fun addr_class_elements :: "element list \<Rightarrow> string set \<Rightarrow> string set" where
  "addr_class_elements [] adds = adds"
| "addr_class_elements (e # es) adds =
     (let addr_text = el_text_sep e
      in if 15 < length addr_text \<and> length addr_text < 400
         then addr_class_elements es (insert addr_text adds)
         else addr_class_elements es adds)"

fun addr_class_loop :: "soup \<Rightarrow> string list \<Rightarrow> string set \<Rightarrow> string set" where
  "addr_class_loop sp [] adds = adds"
| "addr_class_loop sp (class_name # rest) adds =
     addr_class_loop sp rest (addr_class_elements (find_all_attr_re sp ''class'' class_name) adds)"

text \<open>
  Strategy 4: each line of the text that, stripped, is not empty and holds a keyword
  collects the lines from the one before it to the third after it.
\<close>

definition has_keyword :: "string \<Rightarrow> bool" where
  "has_keyword line = (line \<noteq> [] \<and> list_ex (\<lambda>keyword. contains (lower line) keyword) ADDRESS_KEYWORDS)"

definition context_of :: "string list \<Rightarrow> nat \<Rightarrow> string" where
  "context_of text_lines i =
     (let context_start = nat (max 0 (int i - 1));
          context_end = min (length text_lines) (i + 4);
          context_lines = map strip (filter (\<lambda>l. strip l \<noteq> [])
                            (slice text_lines context_start context_end))
      in join '' '' context_lines)"

fun addr_context_loop :: "string list \<Rightarrow> (nat \<times> string) list \<Rightarrow> string set \<Rightarrow> string set" where
  "addr_context_loop text_lines [] adds = adds"
| "addr_context_loop text_lines ((i, line) # rest) adds =
     (if has_keyword (strip line) then
        (let context = context_of text_lines i
         in if 20 < length context \<and> length context < 500
            then addr_context_loop text_lines rest (insert context adds)
            else addr_context_loop text_lines rest adds)
      else addr_context_loop text_lines rest adds)"

text \<open>\<^verbatim>\<open>enumerate(xs)\<close>\<close>

definition enumerate_from0 :: "'a list \<Rightarrow> (nat \<times> 'a) list" where
  "enumerate_from0 xs = zip [0..<length xs] xs"

definition addr_context_strategy :: "string \<Rightarrow> string set \<Rightarrow> string set" where
  "addr_context_strategy text adds =
     (let text_lines = split_on CHR 0x0A text
      in addr_context_loop text_lines (enumerate_from0 text_lines) adds)"

text \<open>Strategy 5: postal codes with a street or locality keyword near them.\<close>

definition postal_patterns :: "rx list" where
  "postal_patterns = [
     Rep is_digit 5 (Some 6),
     seqs [Rep is_digit 3 (Some 3), rx_star is_space, Rep is_digit 3 (Some 3)],
     seqs [Rep (cls ascii_upper) 1 (Some 2), Rep is_digit 1 (Some 2), rx_opt (cls ascii_upper),
           rx_star is_space, rx_one is_digit, Rep (cls ascii_upper) 2 (Some 2)]]"

text \<open>What the body of the inner loop adds for one match, if anything.\<close>

definition postal_candidate :: "string \<Rightarrow> nat \<times> nat \<Rightarrow> string option" where
  "postal_candidate text m =
     (case m of (match_start, match_end) \<Rightarrow>
      (let start_pos = nat (max 0 (int match_start - 100));
           end_pos = min (length text) (match_end + 100);
           context = strip (slice text start_pos end_pos)
       in if list_ex (\<lambda>keyword. contains (lower context) keyword)
               [''street'', ''road'', ''avenue'', ''city'', ''town'']
          then
            (let lines = split_on CHR 0x0A context;
                 address_lines = map strip
                   (filter (\<lambda>line. strip line \<noteq> [] \<and> length (strip line) > 5) lines)
             in if address_lines \<noteq> [] then
                  (let full_address = join '' '' address_lines
                   in if 30 < length full_address \<and> length full_address < 300
                      then Some full_address else None)
                else None)
          else None))"

fun addr_postal_matches :: "string \<Rightarrow> (nat \<times> nat) list \<Rightarrow> string set \<Rightarrow> string set" where
  "addr_postal_matches text [] adds = adds"
| "addr_postal_matches text (m # matches) adds =
     addr_postal_matches text matches
       (case postal_candidate text m of
          Some full_address \<Rightarrow> insert full_address adds
        | None \<Rightarrow> adds)"

fun addr_postal_loop :: "string \<Rightarrow> rx list \<Rightarrow> string set \<Rightarrow> string set" where
  "addr_postal_loop text [] adds = adds"
| "addr_postal_loop text (pattern # patterns) adds =
     addr_postal_loop text patterns (addr_postal_matches text (finditer pattern text) adds)"

definition extract_addresses :: "soup \<Rightarrow> string set" where
  "extract_addresses sp =
     (let adds = {};
          adds = addr_tag_loop (filter (\<lambda>e. el_name e = ''address'') (soup_elements sp)) adds;
          address_classes = [''address'', ''location'', ''contact-info'', ''office-address''];
          adds = addr_class_loop sp address_classes adds;
          adds = addr_tag_loop (find_all_attr_re sp ''itemtype'' ''address'') adds;
          adds = addr_context_strategy (soup_text sp) adds;
          adds = addr_postal_loop (soup_text sp) postal_patterns adds
      in adds)"

section \<open>The pipeline\<close>

text \<open>
  \<^verbatim>\<open>scrape_contact_page\<close> catches what the \<^verbatim>\<open>try\<close> block raises with four handlers,
  tried in order. An exception is modelled by the handler classes it is an instance of
  (\<^verbatim>\<open>requests\<close> derives \<^verbatim>\<open>Timeout\<close> and \<^verbatim>\<open>ConnectionError\<close> from
  \<^verbatim>\<open>RequestException\<close>, and a connect timeout from both); one that is no
  \<^verbatim>\<open>Exception\<close> at all, such as \<^verbatim>\<open>KeyboardInterrupt\<close>, passes every handler and
  leaves the function.
\<close>

datatype exn_class = Timeout | ConnectionError | RequestException | Exception

datatype exn = Raised "exn_class list"

fun isinstance :: "exn \<Rightarrow> exn_class \<Rightarrow> bool" where
  "isinstance (Raised classes) c = (c \<in> set classes)"

record response =
  status_code :: int
  content_type_header :: "string option"
  content :: string

text \<open>
  What the program calls outside itself: the HTTP session, the HTML parser and the
  URL library. The first two may raise.
\<close>

record world =
  session_get :: "string \<Rightarrow> exn + response"
  BeautifulSoup :: "string \<Rightarrow> exn + soup"
  lib :: urllib

record result =
  emails :: "string set"
  phones :: "string set"
  whatsapp :: "string set"
  urls :: "string set"
  addresses :: "string set"
  status :: string

text \<open>\<^verbatim>\<open>_empty_result(status='failed')\<close>\<close>

definition empty_result :: "string \<Rightarrow> result" where
  "empty_result st = \<lparr>emails = {}, phones = {}, whatsapp = {}, urls = {}, addresses = {},
     status = st\<rparr>"

definition handle :: "exn \<Rightarrow> exn + result" where
  "handle e =
     (if isinstance e Timeout then Inr (empty_result ''timeout'')
      else if isinstance e ConnectionError then Inr (empty_result ''connection_error'')
      else if isinstance e RequestException then Inr (empty_result ''request_error'')
      else if isinstance e Exception then Inr (empty_result ''unexpected_error'')
      else Inl e)"

text \<open>\<^verbatim>\<open>response.headers.get('content-type', '')\<close>\<close>

definition content_type_of :: "response \<Rightarrow> string" where
  "content_type_of resp = (case content_type_header resp of None \<Rightarrow> [] | Some v \<Rightarrow> v)"

text \<open>The first step of \<^verbatim>\<open>scrape_contact_page\<close>: a URL with no scheme gets \<^verbatim>\<open>https://\<close>.\<close>

definition normalize_url :: "string \<Rightarrow> string" where
  "normalize_url url =
     (if \<not> startswith_any url [''http://'', ''https://''] then ''https://'' @ url else url)"

definition scrape_contact_page :: "world \<Rightarrow> string \<Rightarrow> exn + result" where
  "scrape_contact_page w url0 =
     (let url = normalize_url url0
      in case session_get w url of
           Inl e \<Rightarrow> handle e
         | Inr resp \<Rightarrow>
             if status_code resp \<noteq> 200 then Inr (empty_result ''failed'')
             else
               (let content_type = content_type_of resp
                in if \<not> contains content_type ''text/html'' then Inr (empty_result ''failed'')
                   else
                     (case BeautifulSoup w (content resp) of
                        Inl e \<Rightarrow> handle e
                      | Inr sp \<Rightarrow>
                          Inr \<lparr>emails = extract_emails sp,
                               phones = extract_phones sp,
                               whatsapp = extract_whatsapp sp,
                               urls = extract_urls (lib w) sp url,
                               addresses = extract_addresses sp,
                               status = ''success''\<rparr>)))"

section \<open>Auxiliary definitions for the proofs\<close>

text \<open>
  The test a candidate passes to be kept by \<^verbatim>\<open>clean_phone_numbers\<close>: none of the four
  \<^verbatim>\<open>continue\<close> conditions holds of its digits. \<open>kept\<close> is the set the loop adds.
\<close>

definition plausible :: "string \<Rightarrow> bool" where
  "plausible digits =
     (\<not> (length digits < 7 \<or> length digits > 15) \<and>
      \<not> startswith_any digits [''0000'', ''1111'', ''2222'', ''3333''] \<and>
      \<not> (length digits = 4 \<and> startswith_any digits [''19'', ''20'']) \<and>
      \<not> (length digits \<ge> 10 \<and> startswith_any digits [''16'', ''17'', ''20'']))"

definition kept :: "string list \<Rightarrow> string set" where
  "kept raw = normalize_ws ` {num \<in> set raw. plausible (digits_only (normalize_ws num))}"

text \<open>
  The variant of \<^verbatim>\<open>clean_phone_numbers\<close> the refinement claim compares with: the same
  loop without the branch that skips four-digit years.
\<close>

fun clean_phone_loop_no_year :: "string list \<Rightarrow> string set \<Rightarrow> string set" where
  "clean_phone_loop_no_year [] cleaned = cleaned"
| "clean_phone_loop_no_year (num # rest) cleaned =
     (let clean_num = normalize_ws num;
          digits = digits_only clean_num
      in if length digits < 7 \<or> length digits > 15 then clean_phone_loop_no_year rest cleaned
         else if startswith_any digits [''0000'', ''1111'', ''2222'', ''3333'']
           then clean_phone_loop_no_year rest cleaned
         else if length digits \<ge> 10 \<and> startswith_any digits [''16'', ''17'', ''20'']
           then clean_phone_loop_no_year rest cleaned
         else clean_phone_loop_no_year rest (insert clean_num cleaned))"

definition clean_phone_numbers_no_year :: "string list \<Rightarrow> string set" where
  "clean_phone_numbers_no_year raw_numbers = clean_phone_loop_no_year raw_numbers {}"

text \<open>
  Concrete inputs for the examples. \<open>simple_urllib\<close> is the URL library on the URLs
  the examples use: of \<^verbatim>\<open>scheme://host/path\<close> it gives the scheme and the host, and a
  reference that is an absolute path is put after the base \<^verbatim>\<open>scheme://host\<close>.
\<close>

definition simple_urllib :: urllib where
  "simple_urllib = \<lparr>
     urlparse = (\<lambda>u. let scheme = takeWhile (\<lambda>c. c \<noteq> CHR '':'') u
                     in (scheme, takeWhile (\<lambda>c. c \<notin> set ''/?#'') (drop (length scheme + 3) u))),
     urljoin = (\<lambda>base href. base @ href)\<rparr>"

definition anchor :: "string \<Rightarrow> element" where
  "anchor href = \<lparr>el_name = ''a'', el_attrs = [(''href'', href)], el_string = None,
     el_text = [], el_text_sep = []\<rparr>"

definition empty_page :: soup where
  "empty_page = \<lparr>soup_text = [], soup_elements = []\<rparr>"

text \<open>A world in which every request times out while connecting.\<close>

definition timeout_world :: world where
  "timeout_world = \<lparr>
     session_get = (\<lambda>url. Inl (Raised [Timeout, ConnectionError, RequestException, Exception])),
     BeautifulSoup = (\<lambda>c. Inr empty_page),
     lib = simple_urllib\<rparr>"

text \<open>A world in which every request is answered with status 200 and a JSON body.\<close>

definition json_world :: world where
  "json_world = \<lparr>
     session_get = (\<lambda>url. Inr \<lparr>status_code = 200,
        content_type_header = Some ''application/json'', content = ''{}''\<rparr>),
     BeautifulSoup = (\<lambda>c. Inr \<lparr>soup_text = ''mail me: a@example.com'', soup_elements = []\<rparr>),
     lib = simple_urllib\<rparr>"

text \<open>What strategy 4 of \<^verbatim>\<open>extract_addresses\<close> adds for a list of numbered lines.\<close>

definition context_hits :: "string list \<Rightarrow> (nat \<times> string) list \<Rightarrow> string set" where
  "context_hits text_lines ps =
     {context_of text_lines i | i line. (i, line) \<in> set ps \<and> has_keyword (strip line) \<and>
        20 < length (context_of text_lines i) \<and> length (context_of text_lines i) < 500}"

text \<open>
  The strings a pattern matches as a whole, for the proofs about \<open>ms\<close>: \<open>ms r s\<close>
  holds exactly the rests of \<open>s\<close> after a prefix in \<open>lang r\<close>.
\<close>

fun lang :: "rx \<Rightarrow> string \<Rightarrow> bool" where
  "lang (Rep c lo hi) p =
     (list_all c p \<and> lo \<le> length p \<and> (case hi of None \<Rightarrow> True | Some h \<Rightarrow> length p \<le> h))"
| "lang (Seq a b) p = (\<exists>u v. p = u @ v \<and> lang a u \<and> lang b v)"
| "lang (Alt a b) p = (lang a p \<or> lang b p)"

text \<open>A page text of six lines and a page with two \<^verbatim>\<open>mailto:\<close> links.\<close>

definition example_address_text :: string where
  "example_address_text = join [CHR 0x0A]
     [''Contact'', ''Head Office'', ''221B Baker Street'', ''London'', ''NW1 6XE'', ''UK'']"

definition example_mail_page :: soup where
  "example_mail_page = \<lparr>soup_text = ''write to us'',
     soup_elements = [anchor ''mailto:not-an-email'', anchor ''mailto:sales@example.com?subject=hi'',
       \<lparr>el_name = ''span'', el_attrs = [(''data-email'', ''nobody at example'')],
        el_string = None, el_text = [], el_text_sep = []\<rparr>]\<rparr>"

text \<open>
  \<^verbatim>\<open>re.fullmatch\<close>: the pattern matches all of the string. It is the test a string
  passes when the text scan returns it as a match.
\<close>

definition fullmatch :: "rx \<Rightarrow> string \<Rightarrow> bool" where
  "fullmatch r s = ([] \<in> set (ms r s))"

text \<open>
  A page whose \<^verbatim>\<open>mailto:\<close> target and \<^verbatim>\<open>data-email\<close> value go on after an address, a
  world whose responses have the content type \<^verbatim>\<open>multipart/related; type="text/html"\<close>,
  and a page text of three lines with a keyword on the first.
\<close>

definition prefix_mail_page :: soup where
  "prefix_mail_page = \<lparr>soup_text = ''write to us'',
     soup_elements = [anchor ''mailto:a@b.co/../x y z'',
       \<lparr>el_name = ''span'', el_attrs = [(''data-email'', ''bob@example.com (work) call 555'')],
        el_string = None, el_text = [], el_text_sep = []\<rparr>]\<rparr>"

definition multipart_response :: response where
  "multipart_response = \<lparr>status_code = 200,
     content_type_header = Some (''multipart/related; type='' @ [CHR 0x22] @ ''text/html'' @ [CHR 0x22]),
     content = ''--part''\<rparr>"

definition multipart_world :: world where
  "multipart_world = \<lparr>
     session_get = (\<lambda>url. Inr multipart_response),
     BeautifulSoup = (\<lambda>c. Inr \<lparr>soup_text = ''mail me: a@example.com'', soup_elements = []\<rparr>),
     lib = simple_urllib\<rparr>"

definition example_short_text :: string where
  "example_short_text = join [CHR 0x0A] [''Visit us'', ''12 High Lane'', ''Leeds, West Yorkshire'']"

section \<open>Strings: properties\<close>

lemma startswith_iff: "startswith s p \<longleftrightarrow> (\<exists>b. s = p @ b)"
proof
  assume "startswith s p"
  then have "s = p @ drop (length p) s"
    unfolding startswith_def by (metis append_take_drop_id)
  then show "\<exists>b. s = p @ b" ..
next
  assume "\<exists>b. s = p @ b"
  then show "startswith s p" by (auto simp: startswith_def)
qed

lemma contains_iff: "contains s p \<longleftrightarrow> (\<exists>a b. s = a @ p @ b)"
proof (induction s)
  case Nil
  show ?case by simp
next
  case (Cons c cs)
  show ?case
  proof
    assume "contains (c # cs) p"
    then consider "startswith (c # cs) p" | "contains cs p" by auto
    then show "\<exists>a b. c # cs = a @ p @ b"
    proof cases
      case 1
      then obtain b where "c # cs = p @ b" by (auto simp: startswith_iff)
      then have "c # cs = [] @ p @ b" by simp
      then show ?thesis by blast
    next
      case 2
      with Cons.IH obtain a b where "cs = a @ p @ b" by auto
      then have "c # cs = (c # a) @ p @ b" by simp
      then show ?thesis by blast
    qed
  next
    assume "\<exists>a b. c # cs = a @ p @ b"
    then obtain a b where ab: "c # cs = a @ p @ b" by auto
    show "contains (c # cs) p"
    proof (cases a)
      case Nil
      with ab have "startswith (c # cs) p" by (auto simp: startswith_iff)
      then show ?thesis by simp
    next
      case (Cons x a')
      with ab have "cs = a' @ p @ b" by simp
      with Cons.IH have "contains cs p" by blast
      then show ?thesis by simp
    qed
  qed
qed

lemma dropWhile_keep: "\<not> P x \<Longrightarrow> dropWhile P (a @ x # r) = dropWhile P a @ x # r"
  by (induction a) auto

lemma strip_part: "\<exists>u v. s = u @ strip s @ v"
proof -
  let ?d = "dropWhile is_space s"
  have "s = takeWhile is_space s @ ?d" by simp
  moreover have "rev ?d = takeWhile is_space (rev ?d) @ dropWhile is_space (rev ?d)" by simp
  then have "?d = strip s @ rev (takeWhile is_space (rev ?d))"
    unfolding strip_def by (metis rev_append rev_rev_ident)
  ultimately have "s = takeWhile is_space s @ strip s @ rev (takeWhile is_space (rev ?d))"
    by simp
  then show ?thesis by blast
qed

lemma contains_strip:
  assumes "p \<noteq> []" "\<not> is_space (hd p)" "\<not> is_space (last p)"
  shows "contains (strip s) p = contains s p"
proof
  assume "contains (strip s) p"
  then obtain a b where ab: "strip s = a @ p @ b" by (auto simp: contains_iff)
  obtain u v where "s = u @ strip s @ v" using strip_part by blast
  with ab have "s = (u @ a) @ p @ (b @ v)" by simp
  then show "contains s p" unfolding contains_iff by blast
next
  assume "contains s p"
  then obtain a b where ab: "s = a @ p @ b" by (auto simp: contains_iff)
  from assms obtain x p' where p: "p = x # p'" and x: "\<not> is_space x" by (cases p) auto
  have d1: "dropWhile is_space s = dropWhile is_space a @ p @ b"
    using ab p x by (simp add: dropWhile_keep)
  from assms obtain y q where q: "rev p = y # q" and y: "\<not> is_space y"
    by (cases "rev p") (auto simp: last_rev [symmetric] hd_rev)
  have "rev (dropWhile is_space s) = rev b @ y # (q @ rev (dropWhile is_space a))"
    using d1 q by simp
  then have "dropWhile is_space (rev (dropWhile is_space s))
     = dropWhile is_space (rev b) @ y # (q @ rev (dropWhile is_space a))"
    using y by (simp add: dropWhile_keep)
  then have "strip s = dropWhile is_space a @ rev (y # q) @ rev (dropWhile is_space (rev b))"
    unfolding strip_def by simp
  also have "rev (y # q) = p" using q by (metis rev_rev_ident)
  finally show "contains (strip s) p" unfolding contains_iff by blast
qed

lemma lower_char_cases:
  "lower_char x = x \<or> (x \<in> set ascii_upper \<and> lower_char x \<in> set ascii_lower)"
proof (cases "map_of (zip ascii_upper ascii_lower) x")
  case None
  then show ?thesis by (simp add: lower_char_def)
next
  case (Some l)
  then have "(x, l) \<in> set (zip ascii_upper ascii_lower)" by (rule map_of_SomeD)
  then have "x \<in> set ascii_upper" "l \<in> set ascii_lower"
    by (auto dest: set_zip_leftD set_zip_rightD)
  with Some show ?thesis by (simp add: lower_char_def)
qed

lemma upper_char_cases:
  "upper_char x = x \<or> (x \<in> set ascii_lower \<and> upper_char x \<in> set ascii_upper)"
proof (cases "map_of (zip ascii_lower ascii_upper) x")
  case None
  then show ?thesis by (simp add: upper_char_def)
next
  case (Some l)
  then have "(x, l) \<in> set (zip ascii_lower ascii_upper)" by (rule map_of_SomeD)
  then have "x \<in> set ascii_lower" "l \<in> set ascii_upper"
    by (auto dest: set_zip_leftD set_zip_rightD)
  with Some show ?thesis by (simp add: upper_char_def)
qed

lemma letters_not_space:
  "list_all (\<lambda>x. \<not> is_space x) ascii_upper" "list_all (\<lambda>x. \<not> is_space x) ascii_lower"
  by (simp_all add: ascii_upper_def ascii_lower_def is_space_def)

lemma is_space_lower_char: "is_space (lower_char c) = is_space c"
  using lower_char_cases [of c] letters_not_space
  by (auto simp: list_all_iff)

lemma lower_strip: "lower (strip s) = strip (lower s)"
proof -
  have c: "is_space \<circ> lower_char = is_space" by (rule ext) (simp add: is_space_lower_char)
  show ?thesis
    by (simp add: lower_def strip_def rev_map dropWhile_map c)
qed

section \<open>Regular expressions: properties\<close>

lemma takeWhile_all: "list_all c p \<Longrightarrow> takeWhile c (p @ t) = p @ takeWhile c t"
  by (induction p) auto

lemma take_takeWhile_all: "j \<le> length (takeWhile c s) \<Longrightarrow> list_all c (take j s)"
proof -
  assume j: "j \<le> length (takeWhile c s)"
  have "take j s = take j (takeWhile c s @ dropWhile c s)" by simp
  also have "\<dots> = take j (takeWhile c s)" using j by (simp del: takeWhile_dropWhile_id)
  finally have "set (take j s) \<subseteq> set (takeWhile c s)" by (simp add: set_take_subset)
  then show ?thesis by (auto simp: list_all_iff dest: set_takeWhileD)
qed

lemma ms_Rep_set:
  "set (ms (Rep c lo hi) s) =
     (\<lambda>j. drop j s) ` {j. lo \<le> j \<and> j \<le> length (takeWhile c s) \<and>
                           (case hi of None \<Rightarrow> True | Some h \<Rightarrow> j \<le> h)}"
  by (cases hi) (force simp: Let_def less_Suc_eq_le simp del: upt_Suc)+

lemma ms_Rep_iff:
  "t \<in> set (ms (Rep c lo hi) s) \<longleftrightarrow> (\<exists>p. s = p @ t \<and> lang (Rep c lo hi) p)"
proof
  assume "t \<in> set (ms (Rep c lo hi) s)"
  then obtain j where t: "t = drop j s" and lo: "lo \<le> j"
    and k: "j \<le> length (takeWhile c s)" and h: "case hi of None \<Rightarrow> True | Some h \<Rightarrow> j \<le> h"
    unfolding ms_Rep_set by blast
  have len: "j \<le> length s" using k length_takeWhile_le [of c s] by linarith
  have "s = take j s @ t" using t by simp
  moreover have "lang (Rep c lo hi) (take j s)"
    using lo k h len by (auto simp: take_takeWhile_all min_def split: option.splits)
  ultimately show "\<exists>p. s = p @ t \<and> lang (Rep c lo hi) p" by blast
next
  assume "\<exists>p. s = p @ t \<and> lang (Rep c lo hi) p"
  then obtain p where s: "s = p @ t" and all: "list_all c p" and lo: "lo \<le> length p"
    and h: "case hi of None \<Rightarrow> True | Some h \<Rightarrow> length p \<le> h" by auto
  have k: "length p \<le> length (takeWhile c s)" using s all by (simp add: takeWhile_all)
  have "drop (length p) s = t" using s by simp
  with lo k h show "t \<in> set (ms (Rep c lo hi) s)"
    unfolding ms_Rep_set by blast
qed

lemma ms_iff: "t \<in> set (ms r s) \<longleftrightarrow> (\<exists>p. s = p @ t \<and> lang r p)"
proof (induction r arbitrary: s t)
  case (Rep c lo hi)
  show ?case by (rule ms_Rep_iff)
next
  case (Seq a b)
  have "t \<in> set (ms (Seq a b) s) \<longleftrightarrow> (\<exists>u \<in> set (ms a s). t \<in> set (ms b u))" by auto
  also have "\<dots> \<longleftrightarrow> (\<exists>u. (\<exists>p1. s = p1 @ u \<and> lang a p1) \<and> (\<exists>p2. u = p2 @ t \<and> lang b p2))"
    by (simp only: Bex_def Seq.IH)
  also have "\<dots> \<longleftrightarrow> (\<exists>u p1 p2. s = p1 @ u \<and> lang a p1 \<and> u = p2 @ t \<and> lang b p2)"
    by blast
  also have "\<dots> \<longleftrightarrow> (\<exists>p. s = p @ t \<and> lang (Seq a b) p)"
  proof
    assume "\<exists>u p1 p2. s = p1 @ u \<and> lang a p1 \<and> u = p2 @ t \<and> lang b p2"
    then obtain p1 p2 where "s = (p1 @ p2) @ t" "lang a p1" "lang b p2" by auto
    then show "\<exists>p. s = p @ t \<and> lang (Seq a b) p" by (intro exI [of _ "p1 @ p2"]) auto
  next
    assume "\<exists>p. s = p @ t \<and> lang (Seq a b) p"
    then obtain p1 p2 where "s = p1 @ (p2 @ t)" "lang a p1" "lang b p2" by auto
    then show "\<exists>u p1 p2. s = p1 @ u \<and> lang a p1 \<and> u = p2 @ t \<and> lang b p2" by blast
  qed
  finally show ?case .
next
  case (Alt a b)
  then show ?case by auto
qed

lemma match_len_iff: "match_len r s \<noteq> None \<longleftrightarrow> (\<exists>p t. s = p @ t \<and> lang r p)"
proof -
  have "match_len r s \<noteq> None \<longleftrightarrow> ms r s \<noteq> []"
    by (simp add: match_len_def split: list.splits)
  also have "\<dots> \<longleftrightarrow> (\<exists>t. t \<in> set (ms r s))" by (cases "ms r s") auto
  also have "\<dots> \<longleftrightarrow> (\<exists>p t. s = p @ t \<and> lang r p)" using ms_iff by blast
  finally show ?thesis .
qed

lemma match_whole_lang: "match_whole r s = Some (n, x) \<Longrightarrow> lang r x"
proof -
  assume a: "match_whole r s = Some (n, x)"
  then obtain t ts where ms: "ms r s = t # ts" and n: "n = length s - length t" and x: "x = take n s"
    by (auto simp: match_whole_def match_len_def split: list.splits option.splits)
  from ms have "t \<in> set (ms r s)" by simp
  then obtain p where "s = p @ t" "lang r p" using ms_iff by blast
  then show "lang r x" using n x by simp
qed

lemma scan_result:
  "(pos, n, x) \<in> set (scan m skip pos0 s) \<Longrightarrow> \<exists>s'. m s' = Some (n, x)"
proof (induction s arbitrary: skip pos0)
  case Nil
  then show ?case by simp
next
  case (Cons c cs)
  then show ?case by (auto split: if_splits option.splits)
qed

lemma findall_whole_lang: "x \<in> set (findall (match_whole r) s) \<Longrightarrow> lang r x"
proof -
  assume "x \<in> set (findall (match_whole r) s)"
  then have "x \<in> (\<lambda>(pos, n, y). y) ` set (scan (match_whole r) 0 0 s)"
    by (simp only: findall_def set_map)
  then obtain q where q: "q \<in> set (scan (match_whole r) 0 0 s)" "x = (\<lambda>(pos, n, y). y) q"
    by (rule imageE)
  obtain pos n y where "q = (pos, n, y)" by (cases q)
  with q have "(pos, n, x) \<in> set (scan (match_whole r) 0 0 s)" by simp
  from scan_result [OF this] obtain s' where "match_whole r s' = Some (n, x)" ..
  then show ?thesis by (rule match_whole_lang)
qed

text \<open>
  A pattern that does not match the empty string matches no empty string anywhere,
  and no pattern the program scans a text with matches the empty string: the scan
  never meets an empty match.
\<close>

lemma no_empty_match: "ms r [] = [] \<Longrightarrow> s \<notin> set (ms r s)"
proof
  assume e: "ms r [] = []" and "s \<in> set (ms r s)"
  then obtain p where "s = p @ s" "lang r p" using ms_iff by blast
  then have "lang r []" by simp
  then have "[] \<in> set (ms r [])" using ms_iff [of "[]" r "[]"] by simp
  with e show False by simp
qed

lemma patterns_need_a_character:
  "list_all (\<lambda>r. ms r [] = [])
     ([ignorecase EMAIL_REGEX, PHONE_REGEX, Seq (ignorecase WHATSAPP_PREFIX) (ignorecase WHATSAPP_GROUP),
       URL_REGEX, WA_LINK_REGEX, ignorecase WA_KEYWORD_REGEX, WA_ELEMENT_REGEX,
       rx_plus is_space, rx_one (\<lambda>c. \<not> is_digit c)] @ postal_patterns)"
  by (simp add: EMAIL_REGEX_def PHONE_REGEX_def WHATSAPP_PREFIX_def WHATSAPP_GROUP_def
      URL_REGEX_def WA_LINK_REGEX_def WA_KEYWORD_REGEX_def WA_ELEMENT_REGEX_def
      postal_patterns_def lit_def)

lemma ignorecase_symbol:
  assumes "a \<notin> set ascii_upper" "a \<notin> set ascii_lower"
  shows "(\<lambda>x. chr a x \<or> chr a (lower_char x) \<or> chr a (upper_char x)) = chr a"
proof (rule ext)
  fix x
  show "(chr a x \<or> chr a (lower_char x) \<or> chr a (upper_char x)) = chr a x"
    using lower_char_cases [of x] upper_char_cases [of x] assms
    by (auto simp: chr_def)
qed

text \<open>\<^verbatim>\<open>re.match\<close> succeeds exactly when a prefix of the string is a full match.\<close>

lemma fullmatch_iff: "fullmatch r p \<longleftrightarrow> lang r p"
  using ms_iff [of "[]" r p] by (simp add: fullmatch_def)

lemma match_len_prefix: "match_len r s \<noteq> None \<longleftrightarrow> (\<exists>p t. s = p @ t \<and> fullmatch r p)"
  by (simp only: match_len_iff fullmatch_iff)

lemma match_group_lang: "match_group p g s = Some (n, x) \<Longrightarrow> lang g x"
proof -
  assume a: "match_group p g s = Some (n, x)"
  then obtain t u rest where c: "concat (map (\<lambda>t. map (\<lambda>u. (t, u)) (ms g t)) (ms p s)) = (t, u) # rest"
    and x: "x = take (length t - length u) t"
    by (auto simp: match_group_def split: list.splits)
  have "(t, u) \<in> set (concat (map (\<lambda>t. map (\<lambda>u. (t, u)) (ms g t)) (ms p s)))"
    unfolding c by simp
  then have "u \<in> set (ms g t)" by auto
  then obtain q where "t = q @ u" "lang g q" using ms_iff by blast
  then show "lang g x" using x by simp
qed

lemma ignorecase_nonletters:
  assumes "set S \<inter> set ascii_upper = {}" "set S \<inter> set ascii_lower = {}"
  shows "(\<lambda>x. cls S x \<or> cls S (lower_char x) \<or> cls S (upper_char x)) = cls S"
proof (rule ext)
  fix x
  show "(cls S x \<or> cls S (lower_char x) \<or> cls S (upper_char x)) = cls S x"
    using lower_char_cases [of x] upper_char_cases [of x] assms
    by (auto simp: cls_def)
qed

lemma is_digit_cls: "is_digit = cls ''0123456789''"
  by (rule ext) (simp add: is_digit_def cls_def)

section \<open>The phone filter: properties\<close>

lemma match_len_one:
  "match_len (Rep c (Suc 0) (Some (Suc 0))) (x # xs) = (if c x then Some (Suc 0) else None)"
  by (simp add: match_len_def)

text \<open>\<^verbatim>\<open>re.sub(r'\D', '', s)\<close> is the digits of \<open>s\<close>, in order.\<close>

lemma digits_only_filter: "digits_only s = filter is_digit s"
  unfolding digits_only_def re_sub_def
  by (induction s) (simp_all add: match_len_one)

lemma kept_Cons:
  "kept (num # rest) =
     (if plausible (digits_only (normalize_ws num)) then insert (normalize_ws num) (kept rest)
      else kept rest)"
  by (auto simp: kept_def)

lemma clean_phone_loop_eq: "clean_phone_loop raw acc = acc \<union> kept raw"
proof (induction raw arbitrary: acc)
  case Nil
  show ?case by (simp add: kept_def)
next
  case (Cons num rest)
  show ?case
    by (simp add: Cons.IH kept_Cons Let_def plausible_def)
qed

lemma clean_phone_numbers_eq: "clean_phone_numbers raw = kept raw"
  by (simp add: clean_phone_numbers_def clean_phone_loop_eq)

lemma kept_bounds:
  "x \<in> kept raw \<Longrightarrow> 7 \<le> length (filter is_digit x) \<and> length (filter is_digit x) \<le> 15"
  by (auto simp: kept_def plausible_def digits_only_filter)

text \<open>
  Claim C4. A candidate whose digits, as the filter counts them, are fewer than 7 or
  more than 15 is not in the filter's output; every string in the output has 7 to 15
  digits; and so has every string in the output of \<^verbatim>\<open>extract_phones\<close>, whose three
  sources (text, \<^verbatim>\<open>tel:\<close> links, \<^verbatim>\<open>data-phone\<close>) all go through the filter.
\<close>

theorem phone_length_bounds:
  "(\<forall>num \<in> set raw.
      length (digits_only (normalize_ws num)) < 7 \<or> length (digits_only (normalize_ws num)) > 15
      \<longrightarrow> normalize_ws num \<notin> clean_phone_numbers raw) \<and>
   (\<forall>x \<in> clean_phone_numbers raw.
      7 \<le> length (filter is_digit x) \<and> length (filter is_digit x) \<le> 15) \<and>
   (\<forall>x \<in> extract_phones sp.
      7 \<le> length (filter is_digit x) \<and> length (filter is_digit x) \<le> 15)"
proof (intro conjI ballI impI)
  fix num
  assume "num \<in> set raw"
    and bad: "length (digits_only (normalize_ws num)) < 7
              \<or> length (digits_only (normalize_ws num)) > 15"
  show "normalize_ws num \<notin> clean_phone_numbers raw"
  proof
    assume "normalize_ws num \<in> clean_phone_numbers raw"
    then have "normalize_ws num \<in> kept raw" by (simp add: clean_phone_numbers_eq)
    from kept_bounds [OF this] bad show False by (simp add: digits_only_filter)
  qed
next
  fix x assume "x \<in> clean_phone_numbers raw"
  then have "x \<in> kept raw" by (simp add: clean_phone_numbers_eq)
  from kept_bounds [OF this]
  show "7 \<le> length (filter is_digit x)" "length (filter is_digit x) \<le> 15"
    by simp_all
next
  fix x assume "x \<in> extract_phones sp"
  then have "x \<in> kept (raw_phones_of sp)"
    by (simp add: extract_phones_def clean_phone_numbers_eq)
  from kept_bounds [OF this]
  show "7 \<le> length (filter is_digit x)" "length (filter is_digit x) \<le> 15"
    by simp_all
qed

theorem phone_length_bounds_witness:
  "''12 34 56'' \<in> set [''12 34 56'', ''5551234567''] \<and>
   length (digits_only (normalize_ws ''12 34 56'')) < 7 \<and>
   normalize_ws ''12 34 56'' \<notin> clean_phone_numbers [''12 34 56'', ''5551234567''] \<and>
   ''5551234567'' \<in> clean_phone_numbers [''12 34 56'', ''5551234567''] \<and>
   7 \<le> length (filter is_digit ''5551234567'')"
proof -
  have a: "''12 34 56'' \<in> set [''12 34 56'', ''5551234567'']" by simp
  have b: "length (digits_only (normalize_ws ''12 34 56'')) < 7" by code_simp
  have c: "''5551234567'' \<in> clean_phone_numbers [''12 34 56'', ''5551234567'']" by code_simp
  from phone_length_bounds [of "[''12 34 56'', ''5551234567'']"] a b c
  show ?thesis by blast
qed

text \<open>
  Claim C5. The filter drops \<^verbatim>\<open>"1984"\<close> and \<^verbatim>\<open>"2001"\<close>, \<^verbatim>\<open>"1699999999"\<close> and
  \<^verbatim>\<open>"0000123456789"\<close>, and keeps \<^verbatim>\<open>"5551234567"\<close>.
\<close>

theorem phone_filter_examples:
  "clean_phone_numbers [''1984''] = {} \<and>
   clean_phone_numbers [''2001''] = {} \<and>
   clean_phone_numbers [''1699999999''] = {} \<and>
   clean_phone_numbers [''0000123456789''] = {} \<and>
   clean_phone_numbers [''5551234567''] = {''5551234567''} \<and>
   clean_phone_numbers [''1984'', ''2001'', ''1699999999'', ''0000123456789'', ''5551234567'']
     = {''5551234567''}"
  by code_simp

text \<open>
  Claim C9. Survivors are told apart by their whitespace-normalised strings, not by
  their digits: \<^verbatim>\<open>"+1 415 555 0100"\<close> and \<^verbatim>\<open>"14155550100"\<close> have the same digits and
  are both in the output.
\<close>

theorem phone_dedup_by_string:
  "digits_only (normalize_ws ''+1 415 555 0100'') = digits_only (normalize_ws ''14155550100'') \<and>
   normalize_ws ''+1 415 555 0100'' \<noteq> normalize_ws ''14155550100'' \<and>
   clean_phone_numbers [''+1 415 555 0100'', ''14155550100'']
     = {''+1 415 555 0100'', ''14155550100''}"
  by code_simp

lemma clean_phone_loop_no_year_eq: "clean_phone_loop_no_year raw acc = acc \<union> kept raw"
proof (induction raw arbitrary: acc)
  case Nil
  show ?case by (simp add: kept_def)
next
  case (Cons num rest)
  show ?case
    by (simp add: Cons.IH kept_Cons Let_def plausible_def)
qed

text \<open>
  Claim C10. The branch that skips four-digit years is never taken: the filter equals
  the variant without it on every input, since a candidate that reaches the branch
  has at least 7 digits; and the variant, by its length rule alone, keeps no string
  of four digits.
\<close>

theorem year_branch_unreachable:
  "clean_phone_numbers raw = clean_phone_numbers_no_year raw \<and>
   (length (digits_only (normalize_ws num)) = 4
      \<longrightarrow> normalize_ws num \<notin> clean_phone_numbers_no_year raw)"
proof
  show eq: "clean_phone_numbers raw = clean_phone_numbers_no_year raw"
    by (simp add: clean_phone_numbers_def clean_phone_numbers_no_year_def
        clean_phone_loop_eq clean_phone_loop_no_year_eq)
  show "length (digits_only (normalize_ws num)) = 4
      \<longrightarrow> normalize_ws num \<notin> clean_phone_numbers_no_year raw"
  proof
    assume four: "length (digits_only (normalize_ws num)) = 4"
    show "normalize_ws num \<notin> clean_phone_numbers_no_year raw"
    proof
      assume "normalize_ws num \<in> clean_phone_numbers_no_year raw"
      then have "normalize_ws num \<in> kept raw"
        by (simp add: clean_phone_numbers_no_year_def clean_phone_loop_no_year_eq)
      from kept_bounds [OF this] four show False by (simp add: digits_only_filter)
    qed
  qed
qed

theorem year_branch_unreachable_witness:
  "clean_phone_numbers [''1984'', ''5551234567''] = clean_phone_numbers_no_year [''1984'', ''5551234567''] \<and>
   length (digits_only (normalize_ws ''1984'')) = 4 \<and>
   normalize_ws ''1984'' \<notin> clean_phone_numbers_no_year [''1984'', ''5551234567'']"
proof -
  have four: "length (digits_only (normalize_ws ''1984'')) = 4" by code_simp
  from year_branch_unreachable [of "[''1984'', ''5551234567'']" "''1984''"] four
  show ?thesis by blast
qed

section \<open>The email detector: properties\<close>

lemma split_on_nonempty: "split_on d s \<noteq> []"
  by (induction s) (auto split: list.splits)

lemma hd_split_on: "hd (split_on d s) = takeWhile (\<lambda>c. c \<noteq> d) s"
  by (induction s) (auto simp: split_on_nonempty split: list.splits)

lemma mailto_target_cut:
  "mailto_target href =
     takeWhile (\<lambda>c. c \<noteq> CHR ''&'') (takeWhile (\<lambda>c. c \<noteq> CHR ''?'') (replace href ''mailto:'' []))"
  by (simp only: mailto_target_def hd_split_on)

lemma mailto_loop_eq:
  "mailto_loop hrefs acc = acc \<union> {mailto_target href | href. href \<in> set hrefs \<and>
      startswith href ''mailto:'' \<and> match_len EMAIL_REGEX (mailto_target href) \<noteq> None}"
proof (induction hrefs arbitrary: acc)
  case Nil
  show ?case by simp
next
  case (Cons h hs)
  have c: "{mailto_target href | href. href \<in> set (h # hs) \<and>
      startswith href ''mailto:'' \<and> match_len EMAIL_REGEX (mailto_target href) \<noteq> None} =
    (if startswith h ''mailto:'' \<and> match_len EMAIL_REGEX (mailto_target h) \<noteq> None
     then insert (mailto_target h) {mailto_target href | href. href \<in> set hs \<and>
      startswith href ''mailto:'' \<and> match_len EMAIL_REGEX (mailto_target href) \<noteq> None}
     else {mailto_target href | href. href \<in> set hs \<and>
      startswith href ''mailto:'' \<and> match_len EMAIL_REGEX (mailto_target href) \<noteq> None})"
    by auto
  show ?case unfolding c by (simp add: Cons.IH Let_def)
qed

lemma data_email_loop_eq:
  "data_email_loop vals acc = acc \<union> {email. email \<in> set vals \<and> match_len EMAIL_REGEX email \<noteq> None}"
proof (induction vals acc rule: data_email_loop.induct)
  case (1 acc)
  show ?case by simp
next
  case (2 v vs acc)
  have c: "{email. email \<in> set (v # vs) \<and> match_len EMAIL_REGEX email \<noteq> None} =
    (if match_len EMAIL_REGEX v \<noteq> None
     then insert v {email. email \<in> set vs \<and> match_len EMAIL_REGEX email \<noteq> None}
     else {email. email \<in> set vs \<and> match_len EMAIL_REGEX email \<noteq> None})"
    by auto
  show ?case unfolding c using 2 by simp
qed

text \<open>
  Claim C8, as stated: a candidate from a \<^verbatim>\<open>mailto:\<close> target or a \<^verbatim>\<open>data-email\<close>
  value is included only if it matches the email pattern of the text scan. It is
  included on less: the program tests it with \<^verbatim>\<open>re.match\<close>, which asks for a match at
  the start only. The \<^verbatim>\<open>data-email\<close> value \<^verbatim>\<open>bob@example.com (work) call 555\<close> and the
  target \<^verbatim>\<open>mailto:a@b.co/../x y z\<close> are in the output whole, though neither is a match
  of the pattern: scanned as text, the first gives \<^verbatim>\<open>bob@example.com\<close>.
\<close>

theorem email_prefix_counterexample:
  "''bob@example.com (work) call 555'' \<in> extract_emails prefix_mail_page \<and>
   \<not> fullmatch EMAIL_REGEX ''bob@example.com (work) call 555'' \<and>
   findall (match_whole (ignorecase EMAIL_REGEX)) ''bob@example.com (work) call 555''
     = [''bob@example.com''] \<and>
   mailto_target ''mailto:a@b.co/../x y z'' = ''a@b.co/../x y z'' \<and>
   ''a@b.co/../x y z'' \<in> extract_emails prefix_mail_page \<and>
   \<not> fullmatch EMAIL_REGEX ''a@b.co/../x y z''"
  by code_simp

text \<open>
  Claim C8, amended. The two sources add a candidate exactly when \<^verbatim>\<open>re.match\<close> finds
  the email pattern at its start, that is when some prefix of the candidate is a full
  match of the pattern; the candidate is added whole. So the \<^verbatim>\<open>mailto:\<close> loop adds the
  targets (cut at the first \<^verbatim>\<open>?\<close> and \<^verbatim>\<open>&\<close>) that pass, the \<^verbatim>\<open>data-email\<close> loop adds
  the values that pass, and the output of \<^verbatim>\<open>extract_emails\<close> is these and what the text
  scan returns: a candidate that fails \<^verbatim>\<open>re.match\<close> is added by neither source. The
  target of a link is what is left of it, without \<^verbatim>\<open>mailto:\<close>, before the first \<^verbatim>\<open>?\<close>
  and the first \<^verbatim>\<open>&\<close>.
\<close>

theorem email_candidates_prefix_match:
  "mailto_loop hrefs acc = acc \<union> {mailto_target href | href. href \<in> set hrefs \<and>
      startswith href ''mailto:'' \<and> match_len EMAIL_REGEX (mailto_target href) \<noteq> None} \<and>
   data_email_loop vals acc = acc \<union> {email. email \<in> set vals \<and> match_len EMAIL_REGEX email \<noteq> None} \<and>
   extract_emails sp =
     set (findall (match_whole (ignorecase EMAIL_REGEX)) (soup_text sp)) \<union>
     {mailto_target href | href. href \<in> set (a_hrefs sp) \<and>
        startswith href ''mailto:'' \<and> match_len EMAIL_REGEX (mailto_target href) \<noteq> None} \<union>
     {email. email \<in> set (attr_values sp ''data-email'') \<and> match_len EMAIL_REGEX email \<noteq> None} \<and>
   (match_len EMAIL_REGEX email \<noteq> None \<longleftrightarrow> (\<exists>p t. email = p @ t \<and> fullmatch EMAIL_REGEX p)) \<and>
   mailto_target href =
     takeWhile (\<lambda>c. c \<noteq> CHR ''&'') (takeWhile (\<lambda>c. c \<noteq> CHR ''?'') (replace href ''mailto:'' []))"
proof (intro conjI)
  show "extract_emails sp =
     set (findall (match_whole (ignorecase EMAIL_REGEX)) (soup_text sp)) \<union>
     {mailto_target href | href. href \<in> set (a_hrefs sp) \<and>
        startswith href ''mailto:'' \<and> match_len EMAIL_REGEX (mailto_target href) \<noteq> None} \<union>
     {email. email \<in> set (attr_values sp ''data-email'') \<and> match_len EMAIL_REGEX email \<noteq> None}"
    unfolding extract_emails_def Let_def data_email_loop_eq mailto_loop_eq by simp
qed (rule mailto_loop_eq data_email_loop_eq match_len_prefix mailto_target_cut)+

theorem email_candidates_prefix_match_witness:
  "extract_emails example_mail_page =
     set (findall (match_whole (ignorecase EMAIL_REGEX)) (soup_text example_mail_page)) \<union>
     {mailto_target href | href. href \<in> set (a_hrefs example_mail_page) \<and>
        startswith href ''mailto:'' \<and> match_len EMAIL_REGEX (mailto_target href) \<noteq> None} \<union>
     {email. email \<in> set (attr_values example_mail_page ''data-email'') \<and>
        match_len EMAIL_REGEX email \<noteq> None} \<and>
   extract_emails example_mail_page = {''sales@example.com''} \<and>
   match_len EMAIL_REGEX (mailto_target ''mailto:not-an-email'') = None \<and>
   match_len EMAIL_REGEX ''nobody at example'' = None"
proof -
  have a: "extract_emails example_mail_page =
     set (findall (match_whole (ignorecase EMAIL_REGEX)) (soup_text example_mail_page)) \<union>
     {mailto_target href | href. href \<in> set (a_hrefs example_mail_page) \<and>
        startswith href ''mailto:'' \<and> match_len EMAIL_REGEX (mailto_target href) \<noteq> None} \<union>
     {email. email \<in> set (attr_values example_mail_page ''data-email'') \<and>
        match_len EMAIL_REGEX email \<noteq> None}"
    using email_candidates_prefix_match [of "[]" "{}" "[]" example_mail_page "[]" "[]"] by blast
  have b: "extract_emails example_mail_page = {''sales@example.com''}" by code_simp
  have c: "match_len EMAIL_REGEX (mailto_target ''mailto:not-an-email'') = None" by code_simp
  have d: "match_len EMAIL_REGEX ''nobody at example'' = None" by code_simp
  from a b c d show ?thesis by (intro conjI)
qed

section \<open>The WhatsApp detector: properties\<close>

text \<open>
  Every number the keyword pattern captures has at least eight digits, so the test
  \<^verbatim>\<open>len(clean_match) >= 7\<close> of the loop never rejects one.
\<close>

lemma ignorecase_WHATSAPP_GROUP: "ignorecase WHATSAPP_GROUP = WHATSAPP_GROUP"
proof -
  have a: "set ''0123456789'' \<inter> set ascii_upper = {}" "set ''0123456789'' \<inter> set ascii_lower = {}"
    "set ''123456789'' \<inter> set ascii_upper = {}" "set ''123456789'' \<inter> set ascii_lower = {}"
    by (simp_all add: ascii_upper_def ascii_lower_def)
  have b: "CHR ''+'' \<notin> set ascii_upper" "CHR ''+'' \<notin> set ascii_lower"
    by (simp_all add: ascii_upper_def ascii_lower_def)
  show ?thesis
    unfolding WHATSAPP_GROUP_def is_digit_cls
    by (simp add: ignorecase_nonletters [OF a(1,2)] ignorecase_nonletters [OF a(3,4)]
        ignorecase_symbol [OF b])
qed

lemma lang_WHATSAPP_GROUP_digits:
  assumes "lang WHATSAPP_GROUP x"
  shows "8 \<le> length (filter is_digit x)"
proof -
  from assms obtain a b c where x: "x = a @ b @ c"
    and b: "list_all (cls ''123456789'') b" "length b = 1"
    and c: "list_all is_digit c" "7 \<le> length c"
    by (auto simp: WHATSAPP_GROUP_def)
  have "list_all is_digit b" using b(1) by (auto simp: list_all_iff cls_def is_digit_def)
  then have "filter is_digit b = b" "filter is_digit c = c"
    using c(1) by (simp_all add: list_all_iff)
  then have "length (filter is_digit x) = length (filter is_digit a) + length b + length c"
    using x by simp
  then show ?thesis using b(2) c(2) by linarith
qed

lemma wa_text_matches_digits:
  "g \<in> set (wa_text_matches s) \<Longrightarrow> 8 \<le> length (filter is_digit g)"
proof -
  assume "g \<in> set (wa_text_matches s)"
  then have "g \<in> (\<lambda>(pos, n, y). y) `
      set (scan (match_group (ignorecase WHATSAPP_PREFIX) (ignorecase WHATSAPP_GROUP)) 0 0 s)"
    by (simp only: wa_text_matches_def findall_def set_map)
  then obtain q where q: "q \<in> set (scan (match_group (ignorecase WHATSAPP_PREFIX)
      (ignorecase WHATSAPP_GROUP)) 0 0 s)" "g = (\<lambda>(pos, n, y). y) q"
    by (rule imageE)
  obtain pos n y where "q = (pos, n, y)" by (cases q)
  with q have "(pos, n, g) \<in> set (scan (match_group (ignorecase WHATSAPP_PREFIX)
      (ignorecase WHATSAPP_GROUP)) 0 0 s)" by simp
  from scan_result [OF this] obtain s' where
    "match_group (ignorecase WHATSAPP_PREFIX) (ignorecase WHATSAPP_GROUP) s' = Some (n, g)" ..
  then have "lang (ignorecase WHATSAPP_GROUP) g" by (rule match_group_lang)
  then show ?thesis by (simp add: ignorecase_WHATSAPP_GROUP lang_WHATSAPP_GROUP_digits)
qed

text \<open>
  Claim C3 at a concrete page: the keyword pattern asks for a non-zero digit and 7 to
  15 digits more, so \<^verbatim>\<open>WhatsApp: 1234567\<close> gives no match and an empty output; eight
  digits are matched, and the link pattern \<^verbatim>\<open>\+?\d{7,15}\<close> does take seven.
\<close>

theorem whatsapp_seven_digits_missed:
  "wa_text_matches ''WhatsApp: 1234567'' = [] \<and>
   extract_whatsapp \<lparr>soup_text = ''WhatsApp: 1234567'', soup_elements = []\<rparr> = {} \<and>
   extract_whatsapp \<lparr>soup_text = ''WhatsApp: 12345678'', soup_elements = []\<rparr> = {''12345678''} \<and>
   extract_whatsapp \<lparr>soup_text = [], soup_elements = [anchor ''https://wa.me/1234567'']\<rparr> = {''1234567''}"
  by code_simp

section \<open>The URL detector: properties\<close>

text \<open>
  A URL found in the text and an anchor target that starts with \<^verbatim>\<open>http\<close> are added
  only if they do not end in a media extension. A target that starts with \<^verbatim>\<open>/\<close> is
  resolved and added with no such test: whatever \<^verbatim>\<open>urljoin\<close> returns for it is in the
  output, and a URL of the output that ends in a media extension is the site root or
  comes from such a target.
\<close>

lemma href_url_loop_mono: "x \<in> acc \<Longrightarrow> x \<in> href_url_loop lb b hs acc"
  by (induction hs arbitrary: acc) (simp_all add: Let_def)

lemma href_url_loop_relative:
  "href \<in> set hs \<Longrightarrow> \<not> startswith href ''http'' \<Longrightarrow> startswith href ''/'' \<Longrightarrow>
   urljoin lb b href \<in> href_url_loop lb b hs acc"
proof (induction hs arbitrary: acc)
  case Nil then show ?case by simp
next
  case (Cons h hs)
  show ?case
  proof (cases "h = href")
    case True
    have "urljoin lb b href \<in> href_url_loop lb b hs (insert (urljoin lb b href) acc)"
      by (rule href_url_loop_mono) simp
    then show ?thesis using True Cons.prems by (simp add: Let_def)
  next
    case False
    with Cons.prems have "href \<in> set hs" by simp
    from Cons.IH [OF this Cons.prems(2,3)] show ?thesis by (simp add: Let_def)
  qed
qed

lemma relative_links_unfiltered:
  "href \<in> set (a_hrefs sp) \<Longrightarrow> \<not> startswith href ''http'' \<Longrightarrow> startswith href ''/'' \<Longrightarrow>
   urljoin lb (base_domain_of lb base_url) href \<in> extract_urls lb sp base_url"
  by (simp add: extract_urls_def Let_def href_url_loop_relative)

lemma text_url_loop_filtered:
  "x \<in> text_url_loop us acc \<Longrightarrow> x \<in> acc \<or> \<not> endswith_any (lower x) media_extensions"
  by (induction us arbitrary: acc) (fastforce simp: Let_def split: if_splits)+

lemma href_url_loop_filtered:
  "x \<in> href_url_loop lb b hs acc \<Longrightarrow>
   x \<in> acc \<or> \<not> endswith_any (lower x) media_extensions \<or>
   (\<exists>h \<in> set hs. startswith h ''/'' \<and> \<not> startswith h ''http'' \<and> x = urljoin lb b h)"
  by (induction hs arbitrary: acc) (fastforce simp: Let_def split: if_splits)+

lemma media_urls_origin:
  "x \<in> extract_urls lb sp base_url \<Longrightarrow> endswith_any (lower x) media_extensions \<Longrightarrow>
   x = base_domain_of lb base_url \<or>
   (\<exists>h \<in> set (a_hrefs sp). startswith h ''/'' \<and> \<not> startswith h ''http'' \<and>
      x = urljoin lb (base_domain_of lb base_url) h)"
  unfolding extract_urls_def Let_def
  by (blast dest: href_url_loop_filtered text_url_loop_filtered)

text \<open>
  Claim C2 at a concrete page: the anchor \<^verbatim>\<open><a href="/logo.png">\<close> on
  \<^verbatim>\<open>https://example.com/contact\<close> puts \<^verbatim>\<open>https://example.com/logo.png\<close> into the
  output, though it ends in \<^verbatim>\<open>.png\<close>; the same URL as an absolute target, or in the
  text, is left out.
\<close>

theorem relative_media_link_kept:
  "extract_urls simple_urllib \<lparr>soup_text = [], soup_elements = [anchor ''/logo.png'']\<rparr>
     ''https://example.com/contact'' = {''https://example.com'', ''https://example.com/logo.png''} \<and>
   endswith_any (lower ''https://example.com/logo.png'') media_extensions \<and>
   extract_urls simple_urllib \<lparr>soup_text = ''see https://example.com/logo.png'',
       soup_elements = [anchor ''https://example.com/logo.png'']\<rparr>
     ''https://example.com/contact'' = {''https://example.com''}"
  by code_simp

section \<open>The address detector: properties\<close>

lemma context_hits_Cons:
  "context_hits ls ((i, line) # ps) =
     (if has_keyword (strip line) \<and> 20 < length (context_of ls i) \<and> length (context_of ls i) < 500
      then insert (context_of ls i) (context_hits ls ps) else context_hits ls ps)"
  by (auto simp: context_hits_def)

lemma addr_context_loop_eq: "addr_context_loop ls ps acc = acc \<union> context_hits ls ps"
proof (induction ps arbitrary: acc)
  case Nil
  show ?case by (simp add: context_hits_def)
next
  case (Cons p ps)
  obtain i line where p: "p = (i, line)" by (cases p)
  show ?case by (simp add: p Cons.IH context_hits_Cons Let_def)
qed

lemma in_enumerate_from0: "(i, x) \<in> set (enumerate_from0 xs) \<longleftrightarrow> i < length xs \<and> x = xs ! i"
  by (force simp: enumerate_from0_def in_set_zip)

lemma slice_five:
  assumes "0 < i" "i + 4 \<le> length ls"
  shows "slice ls (i - 1) (i + 4) = [ls ! (i - 1), ls ! i, ls ! (i + 1), ls ! (i + 2), ls ! (i + 3)]"
proof (rule nth_equalityI)
  show "length (slice ls (i - 1) (i + 4)) = length [ls ! (i - 1), ls ! i, ls ! (i + 1), ls ! (i + 2), ls ! (i + 3)]"
    using assms by (simp add: slice_def)
next
  fix k assume "k < length (slice ls (i - 1) (i + 4))"
  then have k: "k < 5" using assms by (simp add: slice_def)
  then consider "k = 0" | "k = 1" | "k = 2" | "k = 3" | "k = 4" by linarith
  then show "slice ls (i - 1) (i + 4) ! k = [ls ! (i - 1), ls ! i, ls ! (i + 1), ls ! (i + 2), ls ! (i + 3)] ! k"
    using assms by cases (simp_all add: slice_def add.commute)
qed

lemma keyword_shape:
  "list_all (\<lambda>k. k \<noteq> [] \<and> \<not> is_space (hd k) \<and> \<not> is_space (last k)) ADDRESS_KEYWORDS"
  by (simp add: ADDRESS_KEYWORDS_def is_space_def)

lemma has_keyword_strip:
  "has_keyword (strip line) = list_ex (\<lambda>keyword. contains (lower line) keyword) ADDRESS_KEYWORDS"
proof -
  have a: "contains (lower (strip line)) k = contains (lower line) k"
    if "k \<in> set ADDRESS_KEYWORDS" for k
  proof -
    from that keyword_shape have "k \<noteq> []" "\<not> is_space (hd k)" "\<not> is_space (last k)"
      by (auto simp: list_all_iff)
    then show ?thesis by (simp add: lower_strip contains_strip)
  qed
  have b: "strip line \<noteq> []" if "k \<in> set ADDRESS_KEYWORDS" "contains (lower (strip line)) k" for k
  proof -
    from that keyword_shape have "k \<noteq> []" by (auto simp: list_all_iff)
    with that(2) have "lower (strip line) \<noteq> []" by (auto simp: contains_iff)
    then show ?thesis by (auto simp: lower_def)
  qed
  show ?thesis
    unfolding has_keyword_def list_ex_iff using a b by blast
qed

lemma addr_context_strategy_eq:
  "addr_context_strategy text acc =
     acc \<union> context_hits (split_on CHR 0x0A text) (enumerate_from0 (split_on CHR 0x0A text))"
  by (simp add: addr_context_strategy_def Let_def addr_context_loop_eq)

lemma context_hits_enumerate:
  "x \<in> context_hits ls (enumerate_from0 ls) \<longleftrightarrow>
   (\<exists>i<length ls. list_ex (\<lambda>keyword. contains (lower (ls ! i)) keyword) ADDRESS_KEYWORDS \<and>
      x = context_of ls i \<and> 20 < length x \<and> length x < 500)"
  unfolding context_hits_def in_enumerate_from0 has_keyword_strip by blast

lemma context_of_interior:
  assumes "0 < i" "i + 4 \<le> length ls"
  shows "context_of ls i = join '' '' (map strip (filter (\<lambda>l. strip l \<noteq> [])
           [ls ! (i - 1), ls ! i, ls ! (i + 1), ls ! (i + 2), ls ! (i + 3)]))"
proof -
  have a: "nat (max 0 (int i - 1)) = i - 1" using assms by simp
  have b: "min (length ls) (i + 4) = i + 4" using assms by simp
  show ?thesis
    unfolding context_of_def Let_def a b slice_five [OF assms] ..
qed

lemma addr_postal_matches_mono: "x \<in> acc \<Longrightarrow> x \<in> addr_postal_matches s spans acc"
  by (induction spans arbitrary: acc) (simp_all split: option.split)

lemma addr_postal_loop_mono: "x \<in> acc \<Longrightarrow> x \<in> addr_postal_loop s ps acc"
  by (induction ps arbitrary: acc) (simp_all add: addr_postal_matches_mono)

lemma addr_context_in_output:
  "x \<in> addr_context_strategy (soup_text sp) {} \<Longrightarrow> x \<in> extract_addresses sp"
proof -
  assume "x \<in> addr_context_strategy (soup_text sp) {}"
  then have "x \<in> addr_context_strategy (soup_text sp) acc" for acc
    by (simp add: addr_context_strategy_eq)
  then show ?thesis
    unfolding extract_addresses_def Let_def by (rule addr_postal_loop_mono)
qed

lemma slice_nth: "slice ls a b = map (\<lambda>j. ls ! j) [a..<min (length ls) b]"
proof (rule nth_equalityI)
  show "length (slice ls a b) = length (map (\<lambda>j. ls ! j) [a..<min (length ls) b])"
    by (simp add: slice_def)
next
  fix k assume "k < length (slice ls a b)"
  then have "k < b - a" "a + k < length ls" by (auto simp: slice_def)
  then show "slice ls a b ! k = map (\<lambda>j. ls ! j) [a..<min (length ls) b] ! k"
    by (simp add: slice_def)
qed

lemma context_of_window:
  "context_of ls i = join '' '' (map strip (filter (\<lambda>l. strip l \<noteq> [])
     (map (\<lambda>j. ls ! j) [i - 1..<min (length ls) (i + 4)])))"
proof -
  have a: "nat (max 0 (int i - 1)) = i - 1" by simp
  show ?thesis
    unfolding context_of_def Let_def a slice_nth by simp
qed

text \<open>
  Claim C7. Strategy 4 adds a string to the set exactly when, for a line \<open>i\<close> of the
  text that contains an address keyword, it is the context of that line and is longer
  than 20 and shorter than 500 characters. The context of a line \<open>i\<close>, wherever it is
  in the text, is the join, by one space, of the lines \<open>i - 1\<close> to \<open>i + 3\<close> that the
  text has (from line 0 when \<open>i = 0\<close>, to the last line when fewer than three follow),
  each stripped and the blank ones left out; for a line with one line before it and
  three after it these are five lines. What the strategy adds is in the output of
  \<^verbatim>\<open>extract_addresses\<close>.
\<close>

theorem address_context_window:
  "(x \<in> addr_context_strategy text acc \<longleftrightarrow>
      x \<in> acc \<or>
      (\<exists>i<length (split_on CHR 0x0A text).
         list_ex (\<lambda>keyword. contains (lower (split_on CHR 0x0A text ! i)) keyword) ADDRESS_KEYWORDS \<and>
         x = join '' '' (map strip (filter (\<lambda>l. strip l \<noteq> [])
               (map (\<lambda>j. split_on CHR 0x0A text ! j)
                  [i - 1..<min (length (split_on CHR 0x0A text)) (i + 4)]))) \<and>
         20 < length x \<and> length x < 500)) \<and>
   context_of ls i = join '' '' (map strip (filter (\<lambda>l. strip l \<noteq> [])
       (map (\<lambda>j. ls ! j) [i - 1..<min (length ls) (i + 4)]))) \<and>
   (0 < i \<and> i + 4 \<le> length ls \<longrightarrow>
      context_of ls i = join '' '' (map strip (filter (\<lambda>l. strip l \<noteq> [])
        [ls ! (i - 1), ls ! i, ls ! (i + 1), ls ! (i + 2), ls ! (i + 3)]))) \<and>
   (x \<in> addr_context_strategy (soup_text sp) {} \<longrightarrow> x \<in> extract_addresses sp)"
proof (intro conjI impI)
  show "x \<in> addr_context_strategy text acc \<longleftrightarrow>
      x \<in> acc \<or>
      (\<exists>i<length (split_on CHR 0x0A text).
         list_ex (\<lambda>keyword. contains (lower (split_on CHR 0x0A text ! i)) keyword) ADDRESS_KEYWORDS \<and>
         x = join '' '' (map strip (filter (\<lambda>l. strip l \<noteq> [])
               (map (\<lambda>j. split_on CHR 0x0A text ! j)
                  [i - 1..<min (length (split_on CHR 0x0A text)) (i + 4)]))) \<and>
         20 < length x \<and> length x < 500)"
    by (simp only: addr_context_strategy_eq Un_iff context_hits_enumerate context_of_window)
next
  show "context_of ls i = join '' '' (map strip (filter (\<lambda>l. strip l \<noteq> [])
       (map (\<lambda>j. ls ! j) [i - 1..<min (length ls) (i + 4)])))"
    by (rule context_of_window)
next
  assume "0 < i \<and> i + 4 \<le> length ls"
  then show "context_of ls i = join '' '' (map strip (filter (\<lambda>l. strip l \<noteq> [])
        [ls ! (i - 1), ls ! i, ls ! (i + 1), ls ! (i + 2), ls ! (i + 3)]))"
    by (simp only: context_of_interior)
next
  assume "x \<in> addr_context_strategy (soup_text sp) {}"
  then show "x \<in> extract_addresses sp" by (rule addr_context_in_output)
qed

theorem address_context_window_witness:
  "''Visit us 12 High Lane Leeds, West Yorkshire''
     \<in> addr_context_strategy example_short_text {} \<and>
   ''Visit us 12 High Lane Leeds, West Yorkshire''
     \<in> extract_addresses \<lparr>soup_text = example_short_text, soup_elements = []\<rparr> \<and>
   context_of (split_on CHR 0x0A example_short_text) 0
     = ''Visit us 12 High Lane Leeds, West Yorkshire'' \<and>
   ''Contact Head Office 221B Baker Street London NW1 6XE''
     \<in> extract_addresses \<lparr>soup_text = example_address_text, soup_elements = []\<rparr> \<and>
   context_of (split_on CHR 0x0A example_address_text) 1 =
     join '' '' [''Contact'', ''Head Office'', ''221B Baker Street'', ''London'', ''NW1 6XE''] \<and>
   addr_context_strategy ''our city'' {} = {}"
proof -
  let ?x = "''Visit us 12 High Lane Leeds, West Yorkshire''"
  let ?ls = "split_on CHR 0x0A example_short_text"
  let ?sp = "\<lparr>soup_text = example_short_text, soup_elements = []\<rparr>"
  let ?y = "''Contact Head Office 221B Baker Street London NW1 6XE''"
  let ?ms = "split_on CHR 0x0A example_address_text"
  let ?sq = "\<lparr>soup_text = example_address_text, soup_elements = []\<rparr>"
  have r: "0 < length ?ls \<and>
      list_ex (\<lambda>keyword. contains (lower (?ls ! 0)) keyword) ADDRESS_KEYWORDS \<and>
      ?x = join '' '' (map strip (filter (\<lambda>l. strip l \<noteq> [])
             (map (\<lambda>j. ?ls ! j) [0 - 1..<min (length ?ls) (0 + 4)]))) \<and>
      20 < length ?x \<and> length ?x < 500"
    by code_simp
  have w: "join '' '' (map strip (filter (\<lambda>l. strip l \<noteq> [])
             (map (\<lambda>j. ?ls ! j) [0 - 1..<min (length ?ls) (0 + 4)]))) = ?x"
    by code_simp
  note short = address_context_window [of ?x example_short_text "{}" ?ls 0 ?sp]
  note long = address_context_window [of ?y example_address_text "{}" ?ms 1 ?sq]
  from short [THEN conjunct1] r
  have a: "?x \<in> addr_context_strategy example_short_text {}" by blast
  then have a': "?x \<in> addr_context_strategy (soup_text ?sp) {}" by simp
  from short [THEN conjunct2, THEN conjunct2, THEN conjunct2] a'
  have b: "?x \<in> extract_addresses ?sp" by (rule mp)
  have c: "context_of ?ls 0 = ?x"
    by (rule trans [OF short [THEN conjunct2, THEN conjunct1] w])
  have d: "?y \<in> addr_context_strategy (soup_text ?sq) {}" by code_simp
  from long [THEN conjunct2, THEN conjunct2, THEN conjunct2] d
  have e: "?y \<in> extract_addresses ?sq" by (rule mp)
  have f: "0 < (1::nat) \<and> 1 + 4 \<le> length ?ms" by code_simp
  have g: "join '' '' (map strip (filter (\<lambda>l. strip l \<noteq> [])
        [?ms ! (1 - 1), ?ms ! 1, ?ms ! (1 + 1), ?ms ! (1 + 2), ?ms ! (1 + 3)]))
      = join '' '' [''Contact'', ''Head Office'', ''221B Baker Street'', ''London'', ''NW1 6XE'']"
    by code_simp
  from long [THEN conjunct2, THEN conjunct2, THEN conjunct1] f
  have h0: "context_of ?ms 1 = join '' '' (map strip (filter (\<lambda>l. strip l \<noteq> [])
        [?ms ! (1 - 1), ?ms ! 1, ?ms ! (1 + 1), ?ms ! (1 + 2), ?ms ! (1 + 3)]))"
    by (rule mp)
  have h: "context_of ?ms 1 =
      join '' '' [''Contact'', ''Head Office'', ''221B Baker Street'', ''London'', ''NW1 6XE'']"
    by (rule trans [OF h0 g])
  have k: "addr_context_strategy ''our city'' {} = {}" by code_simp
  from a b c e h k show ?thesis by (intro conjI)
qed

section \<open>The pipeline: properties\<close>

text \<open>
  Claim C1. When the fetch raises (or, after an HTML response with status 200, the
  parser does), so that there is no parsed document, the result has all five sets
  empty and the status of the first handler the exception is an instance of:
  \<^verbatim>\<open>timeout\<close> for a timeout, then \<^verbatim>\<open>connection_error\<close>, \<^verbatim>\<open>request_error\<close> and
  \<^verbatim>\<open>unexpected_error\<close>.
\<close>

theorem no_document_empty_result:
  assumes "session_get w (normalize_url url) = Inl e \<or>
           (session_get w (normalize_url url) = Inr resp \<and> status_code resp = 200 \<and>
            contains (content_type_of resp) ''text/html'' \<and>
            BeautifulSoup w (content resp) = Inl e)"
  shows "(isinstance e Timeout \<longrightarrow>
            scrape_contact_page w url = Inr \<lparr>emails = {}, phones = {}, whatsapp = {}, urls = {},
              addresses = {}, status = ''timeout''\<rparr>) \<and>
         (\<not> isinstance e Timeout \<and> isinstance e ConnectionError \<longrightarrow>
            scrape_contact_page w url = Inr \<lparr>emails = {}, phones = {}, whatsapp = {}, urls = {},
              addresses = {}, status = ''connection_error''\<rparr>) \<and>
         (\<not> isinstance e Timeout \<and> \<not> isinstance e ConnectionError \<and> isinstance e RequestException \<longrightarrow>
            scrape_contact_page w url = Inr \<lparr>emails = {}, phones = {}, whatsapp = {}, urls = {},
              addresses = {}, status = ''request_error''\<rparr>) \<and>
         (\<not> isinstance e Timeout \<and> \<not> isinstance e ConnectionError \<and> \<not> isinstance e RequestException \<and>
          isinstance e Exception \<longrightarrow>
            scrape_contact_page w url = Inr \<lparr>emails = {}, phones = {}, whatsapp = {}, urls = {},
              addresses = {}, status = ''unexpected_error''\<rparr>)"
proof -
  have "scrape_contact_page w url = handle e"
    using assms by (auto simp: scrape_contact_page_def Let_def)
  then show ?thesis
    by (simp add: handle_def empty_result_def)
qed

theorem no_document_empty_result_witness:
  "scrape_contact_page timeout_world ''example.com'' =
     Inr \<lparr>emails = {}, phones = {}, whatsapp = {}, urls = {}, addresses = {}, status = ''timeout''\<rparr>"
proof -
  have a: "session_get timeout_world (normalize_url ''example.com'')
           = Inl (Raised [Timeout, ConnectionError, RequestException, Exception])"
    by (simp add: timeout_world_def)
  have b: "isinstance (Raised [Timeout, ConnectionError, RequestException, Exception]) Timeout"
    by simp
  from no_document_empty_result [of timeout_world "''example.com''", OF disjI1, OF a] b
  show ?thesis by blast
qed

text \<open>
  Claim C6, as stated: a response whose content type is not HTML is never parsed or
  scanned and gives a status of the \<^verbatim>\<open>non_html\<close>/\<^verbatim>\<open>http_error\<close> class. Neither half
  holds. For \<^verbatim>\<open>application/json\<close> the program returns \<^verbatim>\<open>_empty_result()\<close> with its
  default status \<^verbatim>\<open>failed\<close>. And its test is \<^verbatim>\<open>'text/html' not in content_type\<close>: a
  response of type \<^verbatim>\<open>multipart/related; type="text/html"\<close> is not HTML, yet it is
  parsed and scanned, with status \<^verbatim>\<open>success\<close>.
\<close>

theorem non_html_status_counterexample:
  "scrape_contact_page json_world ''example.com/data'' =
     Inr \<lparr>emails = {}, phones = {}, whatsapp = {}, urls = {}, addresses = {}, status = ''failed''\<rparr> \<and>
   ''failed'' \<noteq> ''non_html'' \<and> ''failed'' \<noteq> ''http_error'' \<and>
   session_get multipart_world (normalize_url ''example.com/data'') = Inr multipart_response \<and>
   takeWhile (\<lambda>c. c \<noteq> CHR '';'') (content_type_of multipart_response) = ''multipart/related'' \<and>
   scrape_contact_page multipart_world ''example.com/data'' =
     Inr \<lparr>emails = {''a@example.com''}, phones = {}, whatsapp = {},
          urls = {''https://example.com''}, addresses = {}, status = ''success''\<rparr>"
  by code_simp

text \<open>
  Claim C6, amended. For every response whose content type does not contain
  \<^verbatim>\<open>text/html\<close>, the result has all five sets empty and the status \<^verbatim>\<open>failed\<close>; the
  parser has no part in it, so the document is neither parsed nor scanned.
\<close>

theorem non_html_gives_failed:
  assumes "session_get w (normalize_url url) = Inr resp"
    and "\<not> contains (content_type_of resp) ''text/html''"
  shows "scrape_contact_page w url =
     Inr \<lparr>emails = {}, phones = {}, whatsapp = {}, urls = {}, addresses = {}, status = ''failed''\<rparr> \<and>
     scrape_contact_page (w\<lparr>BeautifulSoup := parser\<rparr>) url = scrape_contact_page w url"
  using assms by (simp add: scrape_contact_page_def Let_def empty_result_def)

theorem non_html_gives_failed_witness:
  "scrape_contact_page json_world ''example.com/data'' =
     Inr \<lparr>emails = {}, phones = {}, whatsapp = {}, urls = {}, addresses = {}, status = ''failed''\<rparr> \<and>
   scrape_contact_page (json_world\<lparr>BeautifulSoup := (\<lambda>c. Inr empty_page)\<rparr>) ''example.com/data''
     = scrape_contact_page json_world ''example.com/data''"
proof -
  have a: "session_get json_world (normalize_url ''example.com/data'') =
     Inr \<lparr>status_code = 200, content_type_header = Some ''application/json'', content = ''{}''\<rparr>"
    by (simp add: json_world_def)
  have b: "\<not> contains (content_type_of \<lparr>status_code = 200,
     content_type_header = Some ''application/json'', content = ''{}''\<rparr>) ''text/html''"
    by (simp add: content_type_of_def startswith_def)
  from non_html_gives_failed [OF a b] show ?thesis .
qed

end
